theory Spec2Isabelle
  imports Complex_Main
begin

section \<open>Terminal command decorations: data model\<close>

text \<open>
  A shallow embedding of \<^verbatim>\<open>decorationAddon.ts\<close> (class \<^verbatim>\<open>DecorationAddon\<close>).
  Objects of the host (xterm decorations, DOM elements, event subscriptions) live in
  explicit stores; the addon's private fields are fields of one state record; an
  exception is a result value.
\<close>

subsection \<open>Constants of the source\<close>

definition CommandDecoration :: string where "CommandDecoration = ''terminal-command-decoration''"
definition Hide :: string where "Hide = ''hide''"
definition ErrorColor :: string where "ErrorColor = ''error''"
definition DefaultColor :: string where "DefaultColor = ''default-color''"
definition Default :: string where "Default = ''default''"
definition Codicon :: string where "Codicon = ''codicon''"
definition XtermDecoration :: string where "XtermDecoration = ''xterm-decoration''"
definition GenericMarkerIcon :: string where "GenericMarkerIcon = ''codicon-circle-small-filled''"

definition DefaultDimension :: real where "DefaultDimension = 16"
definition MarginLeft :: real where "MarginLeft = - 17"

subsection \<open>Commands\<close>

record IMarker =
  markerId :: nat
  line :: nat

record IGenericMarkProperties =
  hoverMessage :: "string option"

record ITerminalCommand =
  command :: string
  marker :: "IMarker option"
  exitCode :: "int option"
  genericMarkProperties :: "IGenericMarkProperties option"
  hasOutput :: bool
  getOutput :: "string option"

subsection \<open>Configuration\<close>

text \<open>
  A configuration value as \<^verbatim>\<open>typeof\<close> sees it. Numbers are real numbers: rounding to
  IEEE doubles is not modelled, and neither are NaN and the infinities, which no settings
  file can hold.
\<close>

datatype jsvalue = JUndefined | JNumber real | JString string | JBoolean bool

datatype showDecorations = Never | Both | Gutter | OverviewRuler | Unrecognised

record configuration =
  ShellIntegrationDecorationsEnabled :: showDecorations
  ShellIntegrationDecorationIcon :: string
  ShellIntegrationDecorationIconSuccess :: string
  ShellIntegrationDecorationIconError :: string
  FontSize_value :: jsvalue
  FontSize_defaultValue :: jsvalue
  LineHeight_value :: jsvalue

subsection \<open>DOM elements\<close>

record layoutStyle =
  styleWidth :: real
  styleHeight :: real
  styleFontSize :: real
  styleMarginLeft :: real

text \<open>
  \<open>classList\<close> is the element's \<^verbatim>\<open>DOMTokenList\<close>, an ordered set of tokens;
  \<open>style\<close> is \<open>None\<close> until \<^verbatim>\<open>_updateLayout\<close> writes the four inline styles
  (in px).
\<close>

record element =
  classList :: "string list"
  style :: "layoutStyle option"

definition classList_contains :: "string list \<Rightarrow> string \<Rightarrow> bool" where
  "classList_contains cs t = (t \<in> set cs)"

definition classList_add :: "string list \<Rightarrow> string \<Rightarrow> string list" where
  "classList_add cs t = (if t \<in> set cs then cs else cs @ [t])"

definition classList_remove :: "string list \<Rightarrow> string \<Rightarrow> string list" where
  "classList_remove cs t = removeAll t cs"

text \<open>
  \<^verbatim>\<open>for (const classes of element.classList) { element.classList.remove(classes); }\<close>
  The iterator of a \<^verbatim>\<open>DOMTokenList\<close> is the array iterator: it keeps an index
  into the live list and reads the list's length at every step. \<open>removeEach i cs\<close> is
  the loop standing at index \<open>i\<close> of the list \<open>cs\<close>.
\<close>

function removeEach :: "nat \<Rightarrow> string list \<Rightarrow> string list" where
  "removeEach i cs =
     (if i < length cs then removeEach (Suc i) (classList_remove cs (cs ! i)) else cs)"
  by pat_completeness auto
termination
proof (relation "measure (\<lambda>(i, cs). length cs - i)")
  show "wf (measure (\<lambda>(i, cs). length cs - i))" by simp
next
  fix i :: nat and cs :: "string list"
  assume lt: "i < length cs"
  have "length (removeAll (cs ! i) cs) < length cs"
    using lt by (simp add: length_removeAll_less)
  then show "((Suc i, classList_remove cs (cs ! i)), (i, cs)) \<in> measure (\<lambda>(i, cs). length cs - i)"
    using lt by (simp add: classList_remove_def)
qed

declare removeEach.simps [simp del]

section \<open>Style Resolver and Layout Calculator\<close>

definition updateLayout :: "configuration \<Rightarrow> element option \<Rightarrow> element option" where
  "updateLayout cfg element =
     (case element of
        None \<Rightarrow> None
      | Some el \<Rightarrow>
          (case (FontSize_value cfg, FontSize_defaultValue cfg, LineHeight_value cfg) of
             (JNumber fontSize, JNumber defaultFontSize, JNumber lineHeight) \<Rightarrow>
               (let scalar = (if fontSize / defaultFontSize \<le> 1
                              then fontSize / defaultFontSize else 1)
                in Some (el\<lparr>style := Some
                     \<lparr>styleWidth = scalar * DefaultDimension,
                      styleHeight = scalar * DefaultDimension * lineHeight,
                      styleFontSize = scalar * DefaultDimension,
                      styleMarginLeft = scalar * MarginLeft\<rparr>\<rparr>))
           | _ \<Rightarrow> Some el))"

definition truthyString :: "string option \<Rightarrow> bool" where
  "truthyString s = (case s of None \<Rightarrow> False | Some t \<Rightarrow> t \<noteq> [])"

definition addAll :: "string list \<Rightarrow> string list \<Rightarrow> string list" where
  "addAll cs ts = foldl classList_add cs ts"

definition updateClasses ::
  "configuration \<Rightarrow> element option \<Rightarrow> int option \<Rightarrow> IGenericMarkProperties option
     \<Rightarrow> element option" where
  "updateClasses cfg element code gmp =
     (case element of
        None \<Rightarrow> None
      | Some el \<Rightarrow>
          (let c0 = removeEach 0 (classList el);
               c1 = addAll c0 [CommandDecoration, Codicon, XtermDecoration];
               c2 =
                 (case gmp of
                    Some g \<Rightarrow>
                      (let c = addAll c1 [DefaultColor, GenericMarkerIcon]
                       in if \<not> truthyString (hoverMessage g) then classList_add c Default else c)
                  | None \<Rightarrow>
                      (case code of
                         None \<Rightarrow>
                           classList_add (addAll c1 [DefaultColor, Default])
                             (''codicon-'' @ ShellIntegrationDecorationIcon cfg)
                       | Some n \<Rightarrow>
                           if n \<noteq> 0
                           then classList_add (classList_add c1 ErrorColor)
                                  (''codicon-'' @ ShellIntegrationDecorationIconError cfg)
                           else classList_add c1
                                  (''codicon-'' @ ShellIntegrationDecorationIconSuccess cfg)))
           in Some (el\<lparr>classList := c2\<rparr>)))"

section \<open>Interaction Builder: the context menu\<close>

datatype runEffect =
    RequestRunCommand ITerminalCommand "bool option"
  | ClipboardWriteText "string option"
  | OpenLink string

datatype IAction =
    Action (actionId: string) (label: string) (run: runEffect)
  | Separator

definition getCommandActions :: "ITerminalCommand \<Rightarrow> IAction list" where
  "getCommandActions c =
     (let actions0 = [];
          actions1 =
            (if command c \<noteq> []
             then actions0 @
               [Action ''terminal.rerunCommand'' ''Rerun Command'' (RequestRunCommand c None),
                Action ''terminal.copyCommand'' ''Copy Command''
                  (ClipboardWriteText (Some (command c)))]
             else actions0);
          actions2 =
            (if hasOutput c
             then (if length actions1 > 0 then actions1 @ [Separator] else actions1) @
               [Action ''terminal.copyOutput'' ''Copy Output'' (ClipboardWriteText (getOutput c)),
                Action ''terminal.copyOutputAsHtml'' ''Copy Output as HTML''
                  (RequestRunCommand c (Some True))]
             else actions1);
          actions3 = (if length actions2 > 0 then actions2 @ [Separator] else actions2)
      in actions3 @
           [Action ''terminal.learnShellIntegration'' ''Learn About Shell Integration''
              (OpenLink ''https://code.visualstudio.com/docs/editor/integrated-terminal#_shell-integration'')])"

text \<open>What an entry of the menu is, without its closure: the id of an action, or a separator.\<close>

fun menuEntry :: "IAction \<Rightarrow> string option" where
  "menuEntry (Action i l r) = Some i"
| "menuEntry Separator = None"

section \<open>The host: decorations, subscriptions, the capability\<close>

datatype position = PositionLeft | PositionRight

record IDecorationOverviewRulerOptions =
  color :: string
  position :: "position option"

text \<open>
  A decoration of the terminal, as the addon sees it. \<open>onRender\<close> is the listener that
  \<^verbatim>\<open>registerCommandDecoration\<close> installs, named by the command it closes over;
  \<open>onDisposeDeletes\<close> says that the listener
  \<^verbatim>\<open>() => this._decorations.delete(decoration.marker.id)\<close> is installed.
\<close>

record IDecoration =
  decorationMarker :: IMarker
  overviewRulerOptions :: "IDecorationOverviewRulerOptions option"
  isDisposed :: bool
  decorationElement :: "element option"
  onRender :: "ITerminalCommand option"
  onDisposeDeletes :: bool

datatype domListener = Click | MouseEnter | MouseLeave | MouseOut

record IDisposableDecoration =
  decoration :: nat
  disposables :: "domListener list"
  entryExitCode :: "int option"
  entryGenericMarkProperties :: "IGenericMarkProperties option"

record ICommandDetectionCapability =
  executingCommandObject :: "ITerminalCommand option"
  commands :: "ITerminalCommand list"

datatype capabilityEvent =
  CommandStarted | CommandFinished | CommandInvalidated | CurrentCommandInvalidated

datatype CommandInvalidationReason = Windows | NoProblemsReported

datatype themeColor = ColorString string | ColorObject string

datatype error = NoMarker ITerminalCommand

text \<open>
  The addon and what it acts on. The first six fields are the private fields of the class
  (\<open>terminal\<close> says that \<^verbatim>\<open>_terminal\<close> is set); a decoration is named by its index
  in \<open>hostDecorations\<close>, a subscription to an event of the capability by its index in
  \<open>subscriptions\<close> (the flag: not yet disposed). \<open>decorations\<close> is the
  \<^verbatim>\<open>Map\<close> in insertion order. \<open>hostCreates n\<close> says whether the terminal's
  \<^verbatim>\<open>registerDecoration\<close> returns a decoration at its \<open>n\<close>-th call.
  \<open>addCapabilityListeners\<close> and \<open>removeCapabilityListeners\<close> count the listeners that
  \<^verbatim>\<open>_attachToCommandCapability\<close> has registered on the capability store.
\<close>

record addon =
  terminal :: bool
  commandDetectionListeners :: "nat list option"
  decorations :: "(nat \<times> IDisposableDecoration) list"
  placeholderDecoration :: "nat option"
  overviewRulerDecorations :: "bool option"
  decorationsDisabled :: "bool option"
  config :: configuration
  capabilities :: "ICommandDetectionCapability option"
  hostDecorations :: "IDecoration list"
  registerCalls :: nat
  hostCreates :: "nat \<Rightarrow> bool"
  subscriptions :: "(capabilityEvent \<times> bool) list"
  addCapabilityListeners :: nat
  removeCapabilityListeners :: nat
  containers :: "string list list"
  successColor :: "themeColor option"
  errorColor :: "themeColor option"
  defaultColor :: "themeColor option"

subsection \<open>The map of decorations\<close>

definition mapDelete :: "nat \<Rightarrow> (nat \<times> 'a) list \<Rightarrow> (nat \<times> 'a) list" where
  "mapDelete k kvs = filter (\<lambda>kv. fst kv \<noteq> k) kvs"

subsection \<open>Disposal\<close>

text \<open>
  \<^verbatim>\<open>decoration.dispose()\<close>: a second call does nothing; the first marks the decoration
  and runs its dispose listener.
\<close>

definition disposeDecoration :: "nat \<Rightarrow> addon \<Rightarrow> addon" where
  "disposeDecoration h w =
     (if h < length (hostDecorations w) \<and> \<not> isDisposed (hostDecorations w ! h)
      then
        (let d = hostDecorations w ! h;
             w1 = w\<lparr>hostDecorations := (hostDecorations w)[h := d\<lparr>isDisposed := True\<rparr>]\<rparr>
         in if onDisposeDeletes d
            then w1\<lparr>decorations := mapDelete (markerId (decorationMarker d)) (decorations w1)\<rparr>
            else w1)
      else w)"

definition clearPlaceholder :: "addon \<Rightarrow> addon" where
  "clearPlaceholder w =
     (let w1 = (case placeholderDecoration w of
                  Some p \<Rightarrow> disposeDecoration p w
                | None \<Rightarrow> w)
      in w1\<lparr>placeholderDecoration := None\<rparr>)"

text \<open>\<^verbatim>\<open>dispose(this._commandDetectionListeners)\<close>.\<close>

definition disposeListeners :: "nat list \<Rightarrow> addon \<Rightarrow> addon" where
  "disposeListeners ls w =
     w\<lparr>subscriptions :=
         foldl (\<lambda>ss h. if h < length ss then ss[h := (fst (ss ! h), False)] else ss)
           (subscriptions w) ls\<rparr>"

text \<open>
  \<^verbatim>\<open>for (const decoration of this._decorations) { decoration[1].decoration.dispose(); }\<close>
  over the live map: \<open>ks\<close> are the keys the iterator has still to visit, and an entry
  deleted before its turn is not visited.
\<close>

fun disposeEach :: "nat list \<Rightarrow> addon \<Rightarrow> addon" where
  "disposeEach [] w = w"
| "disposeEach (k # ks) w =
     (case map_of (decorations w) k of
        None \<Rightarrow> disposeEach ks w
      | Some e \<Rightarrow> disposeEach ks (disposeDecoration (decoration e) w))"

subsection \<open>Registering a decoration\<close>

definition truthyNumber :: "int option \<Rightarrow> bool" where
  "truthyNumber n = (case n of None \<Rightarrow> False | Some k \<Rightarrow> k \<noteq> 0)"

definition commandColor :: "addon \<Rightarrow> int option \<Rightarrow> string" where
  "commandColor w code =
     (let color' = (case code of
                      None \<Rightarrow> defaultColor w
                    | Some n \<Rightarrow> if n \<noteq> 0 then errorColor w else successColor w)
      in case color' of
           Some (ColorObject s) \<Rightarrow> s
         | _ \<Rightarrow> [])"

text \<open>The terminal's \<^verbatim>\<open>registerDecoration\<close>.\<close>

definition registerDecoration ::
  "IMarker \<Rightarrow> IDecorationOverviewRulerOptions option \<Rightarrow> addon \<Rightarrow> nat option \<times> addon" where
  "registerDecoration m opts w =
     (let w1 = w\<lparr>registerCalls := Suc (registerCalls w)\<rparr>
      in if hostCreates w (registerCalls w)
         then (Some (length (hostDecorations w)),
               w1\<lparr>hostDecorations := hostDecorations w @
                  [\<lparr>decorationMarker = m, overviewRulerOptions = opts, isDisposed = False,
                    decorationElement = None, onRender = None, onDisposeDeletes = False\<rparr>]\<rparr>)
         else (None, w1))"

definition registerCommandDecoration ::
  "ITerminalCommand \<Rightarrow> bool \<Rightarrow> addon \<Rightarrow> (error + nat option) \<times> addon" where
  "registerCommandDecoration c beforeCommandExecution w =
     (if \<not> terminal w \<or> (beforeCommandExecution \<and> genericMarkProperties c \<noteq> None)
         \<or> decorationsDisabled w = Some True
      then (Inr None, w)
      else
        (case marker c of
           None \<Rightarrow> (Inl (NoMarker c), w)
         | Some m \<Rightarrow>
             (let w1 = clearPlaceholder w;
                  color' = commandColor w1 (exitCode c);
                  opts =
                    (if overviewRulerDecorations w1 = Some True
                     then (if beforeCommandExecution
                           then Some \<lparr>color = color', position = Some PositionLeft\<rparr>
                           else Some \<lparr>color = color',
                                      position = Some (if truthyNumber (exitCode c)
                                                       then PositionRight else PositionLeft)\<rparr>)
                     else None)
              in case registerDecoration m opts w1 of
                   (None, w2) \<Rightarrow> (Inr None, w2)
                 | (Some h, w2) \<Rightarrow>
                     (let w3 = (if beforeCommandExecution
                                then w2\<lparr>placeholderDecoration := Some h\<rparr> else w2)
                      in (Inr (Some h),
                          w3\<lparr>hostDecorations :=
                               (hostDecorations w3)[h := (hostDecorations w3 ! h)\<lparr>onRender := Some c\<rparr>]\<rparr>)))))"

definition createDisposables :: "ITerminalCommand \<Rightarrow> domListener list" where
  "createDisposables c =
     (if exitCode c = None \<and> genericMarkProperties c = None then []
      else if genericMarkProperties c \<noteq> None then [MouseEnter, MouseLeave, MouseOut]
      else [Click, MouseEnter, MouseLeave, MouseOut])"

text \<open>
  The terminal renders decoration \<open>h\<close> and runs its render listener. \<open>fresh\<close> is the
  element the terminal creates at the first rendering.
\<close>

definition render :: "nat \<Rightarrow> element \<Rightarrow> addon \<Rightarrow> addon" where
  "render h fresh w =
     (if h < length (hostDecorations w) \<and> \<not> isDisposed (hostDecorations w ! h)
      then
        (let d = hostDecorations w ! h;
             el = (case decorationElement d of None \<Rightarrow> fresh | Some e \<Rightarrow> e)
         in case onRender d of
              None \<Rightarrow>
                w\<lparr>hostDecorations := (hostDecorations w)[h := d\<lparr>decorationElement := Some el\<rparr>]\<rparr>
            | Some c \<Rightarrow>
                (let key = markerId (decorationMarker d);
                     absent = (map_of (decorations w) key = None);
                     d1 = (if absent then d\<lparr>onDisposeDeletes := True\<rparr> else d);
                     decorations1 =
                       (if absent
                        then decorations w @
                          [(key, \<lparr>decoration = h, disposables = createDisposables c,
                                   entryExitCode = exitCode c,
                                   entryGenericMarkProperties = genericMarkProperties c\<rparr>)]
                        else decorations w);
                     element1 =
                       (if \<not> classList_contains (classList el) Codicon
                           \<or> (case marker c of None \<Rightarrow> False | Some m \<Rightarrow> line m = 0)
                        then updateClasses (config w) (updateLayout (config w) (Some el))
                               (exitCode c) (genericMarkProperties c)
                        else Some el)
                 in w\<lparr>hostDecorations := (hostDecorations w)[h := d1\<lparr>decorationElement := element1\<rparr>],
                      decorations := decorations1\<rparr>))
      else w)"

section \<open>Command Event Binder\<close>

definition subscribe :: "capabilityEvent \<Rightarrow> addon \<Rightarrow> addon" where
  "subscribe ev w =
     w\<lparr>subscriptions := subscriptions w @ [(ev, True)],
       commandDetectionListeners :=
         map_option (\<lambda>ls. ls @ [length (subscriptions w)]) (commandDetectionListeners w)\<rparr>"

text \<open>The replay of the finished commands; a throw ends the loop.\<close>

fun registerAll :: "ITerminalCommand list \<Rightarrow> addon \<Rightarrow> (error + unit) \<times> addon" where
  "registerAll [] w = (Inr (), w)"
| "registerAll (c # cs) w =
     (case registerCommandDecoration c False w of
        (Inl e, w1) \<Rightarrow> (Inl e, w1)
      | (Inr _, w1) \<Rightarrow> registerAll cs w1)"

definition addCommandDetectionListeners :: "addon \<Rightarrow> (error + unit) \<times> addon" where
  "addCommandDetectionListeners w =
     (let w1 = (case commandDetectionListeners w of
                  Some ls \<Rightarrow> disposeListeners ls w
                | None \<Rightarrow> w)
      in case capabilities w1 of
           None \<Rightarrow> (Inr (), w1)
         | Some capability \<Rightarrow>
             (let w2 = w1\<lparr>commandDetectionListeners := Some []\<rparr>
              in case (case executingCommandObject capability of
                         None \<Rightarrow> (Inr None, w2)
                       | Some c \<Rightarrow> if marker c \<noteq> None
                                  then registerCommandDecoration c True w2
                                  else (Inr None, w2)) of
                   (Inl e, w3) \<Rightarrow> (Inl e, w3)
                 | (Inr _, w3) \<Rightarrow>
                     (case registerAll (commands capability) (subscribe CommandStarted w3) of
                        (Inl e, w4) \<Rightarrow> (Inl e, w4)
                      | (Inr _, w4) \<Rightarrow>
                          (Inr (),
                           subscribe CurrentCommandInvalidated
                             (subscribe CommandInvalidated (subscribe CommandFinished w4))))))"

definition attachToCommandCapability :: "addon \<Rightarrow> (error + unit) \<times> addon" where
  "attachToCommandCapability w =
     (case (if capabilities w \<noteq> None
            then addCommandDetectionListeners w
            else (Inr (), w\<lparr>addCapabilityListeners := Suc (addCapabilityListeners w)\<rparr>)) of
        (Inl e, w1) \<Rightarrow> (Inl e, w1)
      | (Inr _, w1) \<Rightarrow>
          (Inr (), w1\<lparr>removeCapabilityListeners := Suc (removeCapabilityListeners w1)\<rparr>))"

definition activate :: "addon \<Rightarrow> (error + unit) \<times> addon" where
  "activate w = attachToCommandCapability (w\<lparr>terminal := True\<rparr>)"

subsection \<open>The listeners of the capability's events\<close>

definition onCommandStarted :: "ITerminalCommand \<Rightarrow> addon \<Rightarrow> (error + nat option) \<times> addon" where
  "onCommandStarted c w = registerCommandDecoration c True w"

definition onCommandFinished :: "ITerminalCommand \<Rightarrow> addon \<Rightarrow> (error + nat option) \<times> addon" where
  "onCommandFinished c w = registerCommandDecoration c False w"

fun onCommandInvalidated :: "ITerminalCommand list \<Rightarrow> addon \<Rightarrow> addon" where
  "onCommandInvalidated [] w = w"
| "onCommandInvalidated (c # cs) w =
     onCommandInvalidated cs
       (case marker c of
          None \<Rightarrow> w
        | Some m \<Rightarrow>
            if markerId m \<noteq> 0
            then (case map_of (decorations w) (markerId m) of
                    None \<Rightarrow> w
                  | Some match \<Rightarrow> disposeDecoration (decoration match) w)
            else w)"

definition onCurrentCommandInvalidated :: "CommandInvalidationReason \<Rightarrow> addon \<Rightarrow> addon" where
  "onCurrentCommandInvalidated reason w =
     (case reason of
        NoProblemsReported \<Rightarrow>
          (if decorations w = [] then w
           else disposeDecoration (decoration (snd (last (decorations w)))) w)
      | Windows \<Rightarrow> clearPlaceholder w)"

text \<open>
  An event of the capability runs the listener of every subscription that is not disposed;
  what a listener throws is caught by the emitter and the next listener runs.
\<close>

definition activeSubscriptions :: "capabilityEvent \<Rightarrow> addon \<Rightarrow> nat" where
  "activeSubscriptions ev w = length (filter (\<lambda>s. s = (ev, True)) (subscriptions w))"

definition fireCommandStarted :: "ITerminalCommand \<Rightarrow> addon \<Rightarrow> addon" where
  "fireCommandStarted c w =
     ((\<lambda>w'. snd (onCommandStarted c w')) ^^ activeSubscriptions CommandStarted w) w"

definition fireCommandFinished :: "ITerminalCommand \<Rightarrow> addon \<Rightarrow> addon" where
  "fireCommandFinished c w =
     ((\<lambda>w'. snd (onCommandFinished c w')) ^^ activeSubscriptions CommandFinished w) w"

definition fireCommandInvalidated :: "ITerminalCommand list \<Rightarrow> addon \<Rightarrow> addon" where
  "fireCommandInvalidated cs w =
     (onCommandInvalidated cs ^^ activeSubscriptions CommandInvalidated w) w"

definition fireCurrentCommandInvalidated :: "CommandInvalidationReason \<Rightarrow> addon \<Rightarrow> addon" where
  "fireCurrentCommandInvalidated reason w =
     (onCurrentCommandInvalidated reason ^^ activeSubscriptions CurrentCommandInvalidated w) w"

subsection \<open>The capability store adds and removes the capability\<close>

definition capabilityAdded :: "ICommandDetectionCapability \<Rightarrow> addon \<Rightarrow> addon" where
  "capabilityAdded capability w =
     ((\<lambda>w'. snd (addCommandDetectionListeners w')) ^^ addCapabilityListeners w)
       (w\<lparr>capabilities := Some capability\<rparr>)"

definition onDidRemoveCapability :: "addon \<Rightarrow> addon" where
  "onDidRemoveCapability w =
     (case commandDetectionListeners w of
        None \<Rightarrow> w
      | Some ls \<Rightarrow> (disposeListeners ls w)\<lparr>commandDetectionListeners := None\<rparr>)"

definition capabilityRemoved :: "addon \<Rightarrow> addon" where
  "capabilityRemoved w =
     (onDidRemoveCapability ^^ removeCapabilityListeners w) (w\<lparr>capabilities := None\<rparr>)"

section \<open>Visibility Mode Controller\<close>

definition updateGutterDecorationVisibility :: "bool \<Rightarrow> addon \<Rightarrow> addon" where
  "updateGutterDecorationVisibility visible w =
     w\<lparr>containers :=
         map (\<lambda>cs. if visible then classList_remove cs Hide else classList_add cs Hide)
           (containers w)\<rparr>"

definition stripOverviewRuler :: "nat \<Rightarrow> addon \<Rightarrow> addon" where
  "stripOverviewRuler h w =
     (if h < length (hostDecorations w)
      then w\<lparr>hostDecorations :=
             (hostDecorations w)[h := (hostDecorations w ! h)\<lparr>overviewRulerOptions := None\<rparr>]\<rparr>
      else w)"

definition updateDecorationVisibility :: "addon \<Rightarrow> (error + unit) \<times> addon" where
  "updateDecorationVisibility w =
     (case ShellIntegrationDecorationsEnabled (config w) of
        Never \<Rightarrow>
          (Inr (), (updateGutterDecorationVisibility False w)
                     \<lparr>overviewRulerDecorations := Some False, decorationsDisabled := Some True\<rparr>)
      | Both \<Rightarrow>
          (case attachToCommandCapability (updateGutterDecorationVisibility True w) of
             (Inl e, w1) \<Rightarrow> (Inl e, w1)
           | (Inr _, w1) \<Rightarrow>
               attachToCommandCapability
                 (w1\<lparr>overviewRulerDecorations := Some True, decorationsDisabled := Some False\<rparr>))
      | Gutter \<Rightarrow>
          (let w1 = updateGutterDecorationVisibility True w;
               w2 = (case placeholderDecoration w1 of
                       Some p \<Rightarrow> stripOverviewRuler p w1
                     | None \<Rightarrow> w1);
               w3 = foldl (\<lambda>w' kv. stripOverviewRuler (decoration (snd kv)) w') w2 (decorations w2)
           in attachToCommandCapability
                (w3\<lparr>overviewRulerDecorations := Some False, decorationsDisabled := Some False\<rparr>))
      | OverviewRuler \<Rightarrow>
          attachToCommandCapability
            ((updateGutterDecorationVisibility False w)
               \<lparr>overviewRulerDecorations := Some True, decorationsDisabled := Some False\<rparr>)
      | Unrecognised \<Rightarrow> (Inr (), w))"

text \<open>
  The listener of the configuration service, at a change of
  \<^verbatim>\<open>TerminalSettingId.ShellIntegrationDecorationsEnabled\<close> to \<open>mode\<close>.
\<close>

definition onDidChangeDecorationsEnabled :: "showDecorations \<Rightarrow> addon \<Rightarrow> (error + unit) \<times> addon" where
  "onDidChangeDecorationsEnabled mode w =
     (let w0 = w\<lparr>config := (config w)\<lparr>ShellIntegrationDecorationsEnabled := mode\<rparr>\<rparr>;
          w1 = (case placeholderDecoration w0 of
                  Some p \<Rightarrow> disposeDecoration p w0
                | None \<Rightarrow> w0);
          w2 = disposeEach (map fst (decorations w1)) w1
      in updateDecorationVisibility w2)"

section \<open>The constructor\<close>

text \<open>
  The fields as the class initialises them, in an environment with the configuration
  \<open>cfg\<close> and the capability store holding \<open>capability\<close>; the constructor then calls
  \<^verbatim>\<open>_updateDecorationVisibility\<close>.
\<close>

definition initialAddon :: "configuration \<Rightarrow> ICommandDetectionCapability option \<Rightarrow> addon" where
  "initialAddon cfg capability =
     \<lparr>terminal = False, commandDetectionListeners = None, decorations = [],
      placeholderDecoration = None, overviewRulerDecorations = None, decorationsDisabled = None,
      config = cfg, capabilities = capability, hostDecorations = [], registerCalls = 0,
      hostCreates = (\<lambda>n. True), subscriptions = [], addCapabilityListeners = 0,
      removeCapabilityListeners = 0, containers = [],
      successColor = None, errorColor = None, defaultColor = None\<rparr>"

definition constructed :: "configuration \<Rightarrow> ICommandDetectionCapability option \<Rightarrow> addon" where
  "constructed cfg capability = snd (updateDecorationVisibility (initialAddon cfg capability))"

section \<open>Notions used in the statements\<close>

text \<open>The guards of \<^verbatim>\<open>registerCommandDecoration\<close> let the call through.\<close>

definition passes :: "ITerminalCommand \<Rightarrow> bool \<Rightarrow> addon \<Rightarrow> bool" where
  "passes c b w =
     (terminal w \<and> decorationsDisabled w \<noteq> Some True \<and> \<not> (b \<and> genericMarkProperties c \<noteq> None))"

text \<open>The decoration that a call of \<^verbatim>\<open>registerCommandDecoration\<close> creates.\<close>

definition newDecoration :: "ITerminalCommand \<Rightarrow> bool \<Rightarrow> IMarker \<Rightarrow> addon \<Rightarrow> IDecoration" where
  "newDecoration c b m w =
     \<lparr>decorationMarker = m,
      overviewRulerOptions =
        (if overviewRulerDecorations w = Some True
         then Some \<lparr>color = commandColor w (exitCode c),
                    position = Some (if \<not> b \<and> truthyNumber (exitCode c)
                                     then PositionRight else PositionLeft)\<rparr>
         else None),
      isDisposed = False, decorationElement = None, onRender = Some c,
      onDisposeDeletes = False\<rparr>"

section \<open>Example data\<close>

definition exampleConfig :: configuration where
  "exampleConfig =
     \<lparr>ShellIntegrationDecorationsEnabled = Both,
      ShellIntegrationDecorationIcon = ''circle-outline'',
      ShellIntegrationDecorationIconSuccess = ''primitive-dot'',
      ShellIntegrationDecorationIconError = ''error-small'',
      FontSize_value = JNumber 6,
      FontSize_defaultValue = JNumber 12,
      LineHeight_value = JNumber (12 / 10)\<rparr>"

definition freshElement :: element where
  "freshElement = \<lparr>classList = [''xterm-decoration''], style = None\<rparr>"

definition commandA :: ITerminalCommand where
  "commandA =
     \<lparr>command = ''ls'', marker = Some \<lparr>markerId = 1, line = 3\<rparr>, exitCode = None,
      genericMarkProperties = None, hasOutput = False, getOutput = None\<rparr>"

definition commandB :: ITerminalCommand where
  "commandB =
     \<lparr>command = ''make test'', marker = Some \<lparr>markerId = 2, line = 7\<rparr>, exitCode = Some 2,
      genericMarkProperties = None, hasOutput = True, getOutput = Some ''failed''\<rparr>"

definition emptyCommand :: ITerminalCommand where
  "emptyCommand =
     \<lparr>command = [], marker = Some \<lparr>markerId = 3, line = 9\<rparr>, exitCode = Some 0,
      genericMarkProperties = None, hasOutput = False, getOutput = None\<rparr>"

definition exampleCapability :: ICommandDetectionCapability where
  "exampleCapability = \<lparr>executingCommandObject = None, commands = [commandB]\<rparr>"

text \<open>The addon after its construction and \<^verbatim>\<open>activate\<close>, the capability present.\<close>

definition activeAddon :: addon where
  "activeAddon = snd (activate (constructed exampleConfig (Some exampleCapability)))"

definition commandsStarted :: "ITerminalCommand list \<Rightarrow> addon \<Rightarrow> addon" where
  "commandsStarted cs w = foldl (\<lambda>w' c. fireCommandStarted c w') w cs"

definition startedAddon :: addon where
  "startedAddon = fireCommandStarted commandA activeAddon"

definition genericCommand :: ITerminalCommand where
  "genericCommand =
     \<lparr>command = [], marker = Some \<lparr>markerId = 4, line = 11\<rparr>, exitCode = None,
      genericMarkProperties = Some \<lparr>hoverMessage = Some ''note''\<rparr>, hasOutput = False,
      getOutput = None\<rparr>"

text \<open>Every decoration alive in \<open>w'\<close> is its placeholder, or was alive in \<open>w\<close> and not its placeholder.\<close>

definition onlyPlaceholderNew :: "addon \<Rightarrow> addon \<Rightarrow> bool" where
  "onlyPlaceholderNew w w' =
     (\<forall>h < length (hostDecorations w'). \<not> isDisposed (hostDecorations w' ! h) \<longrightarrow>
        placeholderDecoration w' = Some h
        \<or> (h < length (hostDecorations w) \<and> \<not> isDisposed (hostDecorations w ! h)
             \<and> placeholderDecoration w \<noteq> Some h))"

section \<open>Sequences of binder operations\<close>

datatype binderOp =
    AddCapability ICommandDetectionCapability
  | RemoveCapability
  | ChangeVisibility showDecorations
  | ActivateTerminal

fun binderStep :: "binderOp \<Rightarrow> addon \<Rightarrow> addon" where
  "binderStep (AddCapability capability) w = capabilityAdded capability w"
| "binderStep RemoveCapability w = capabilityRemoved w"
| "binderStep (ChangeVisibility mode) w = snd (onDidChangeDecorationsEnabled mode w)"
| "binderStep ActivateTerminal w = snd (activate w)"

definition runBinder :: "binderOp list \<Rightarrow> addon \<Rightarrow> addon" where
  "runBinder ops w = foldl (\<lambda>w' op. binderStep op w') w ops"

definition listenersOf :: "addon \<Rightarrow> nat list" where
  "listenersOf w = (case commandDetectionListeners w of None \<Rightarrow> [] | Some ls \<Rightarrow> ls)"

text \<open>
  Every subscription that is not disposed is in the addon's list, and the list holds
  subscriptions to different events.
\<close>

definition tracked :: "(capabilityEvent \<times> bool) list \<Rightarrow> nat list \<Rightarrow> bool" where
  "tracked ss ls =
     ((\<forall>h < length ss. snd (ss ! h) \<longrightarrow> h \<in> set ls)
      \<and> distinct (map (\<lambda>h. fst (ss ! h)) ls)
      \<and> (\<forall>h \<in> set ls. h < length ss))"

definition listenersTracked :: "addon \<Rightarrow> bool" where
  "listenersTracked w = tracked (subscriptions w) (listenersOf w)"

text \<open>After the disposal that opens every rebinding, no subscription is left.\<close>

definition disposedFirst :: "addon \<Rightarrow> addon" where
  "disposedFirst w =
     (case commandDetectionListeners w of Some ls \<Rightarrow> disposeListeners ls w | None \<Rightarrow> w)"

text \<open>The subscriptions \<open>es\<close> have just been added to the disposed ones \<open>S\<close>.\<close>

definition freshlyBound :: "(capabilityEvent \<times> bool) list \<Rightarrow> capabilityEvent list \<Rightarrow> addon \<Rightarrow> bool" where
  "freshlyBound S es w =
     (subscriptions w = S @ map (\<lambda>e. (e, True)) es
      \<and> commandDetectionListeners w = Some [length S ..< length S + length es])"

text \<open>The four subscriptions of a binding, in the order of the source.\<close>

definition boundEvents :: "capabilityEvent list" where
  "boundEvents = [CommandStarted, CommandFinished, CommandInvalidated, CurrentCommandInvalidated]"

definition exampleOps :: "binderOp list" where
  "exampleOps =
     [ActivateTerminal, AddCapability exampleCapability, AddCapability exampleCapability,
      RemoveCapability, AddCapability exampleCapability, ChangeVisibility Gutter,
      ChangeVisibility Both]"

section \<open>Consistency of the map with the terminal\<close>

text \<open>
  The map and the terminal's decorations agree: the keys of the map are distinct; the
  decoration of an entry is alive, deletes its key when disposed, and stands on the marker
  of its key; and a decoration that is alive and deletes its key when disposed is the one
  of the entry under that key.
\<close>

definition registryConsistent :: "addon \<Rightarrow> bool" where
  "registryConsistent w =
     (distinct (map fst (decorations w))
      \<and> (\<forall>kv \<in> set (decorations w).
            decoration (snd kv) < length (hostDecorations w)
            \<and> \<not> isDisposed (hostDecorations w ! decoration (snd kv))
            \<and> onDisposeDeletes (hostDecorations w ! decoration (snd kv))
            \<and> markerId (decorationMarker (hostDecorations w ! decoration (snd kv))) = fst kv)
      \<and> (\<forall>h < length (hostDecorations w).
            \<not> isDisposed (hostDecorations w ! h) \<and> onDisposeDeletes (hostDecorations w ! h) \<longrightarrow>
              (\<exists>e. (markerId (decorationMarker (hostDecorations w ! h)), e) \<in> set (decorations w)
                   \<and> decoration e = h)))"

text \<open>
  The first two statements of the listener of the configuration: the placeholder and the
  decorations of the map are disposed.
\<close>

definition disposedAll :: "addon \<Rightarrow> addon" where
  "disposedAll w =
     (let w1 = (case placeholderDecoration w of
                  Some p \<Rightarrow> disposeDecoration p w
                | None \<Rightarrow> w)
      in disposeEach (map fst (decorations w1)) w1)"

definition emptyCapability :: ICommandDetectionCapability where
  "emptyCapability = \<lparr>executingCommandObject = None, commands = []\<rparr>"

text \<open>
  No finished command; \<^verbatim>\<open>ls\<close> has started, so that decoration 0 is the placeholder:
  before the terminal has rendered it, and after.
\<close>

definition placeholderOnly :: addon where
  "placeholderOnly =
     fireCommandStarted commandA (snd (activate (constructed exampleConfig (Some emptyCapability))))"

definition placeholderRendered :: addon where
  "placeholderRendered = render 0 freshElement placeholderOnly"

section \<open>Relations between states\<close>


text \<open>From \<open>w\<close> to \<open>w'\<close> no decoration comes back to life and an empty map stays empty.\<close>

definition keeps :: "addon \<Rightarrow> addon \<Rightarrow> bool" where
  "keeps w w' =
     (length (hostDecorations w) \<le> length (hostDecorations w')
      \<and> (\<forall>g < length (hostDecorations w).
            isDisposed (hostDecorations w ! g) \<longrightarrow> isDisposed (hostDecorations w' ! g))
      \<and> (decorations w = [] \<longrightarrow> decorations w' = []))"

text \<open>What the consistency of the map reads of a decoration.\<close>

definition core :: "IDecoration \<Rightarrow> bool \<times> bool \<times> nat" where
  "core d = (isDisposed d, onDisposeDeletes d, markerId (decorationMarker d))"



section \<open>Replaying the command history\<close>




text \<open>The step of a binding that registers the placeholder of the executing command.\<close>

definition executingStep :: "ICommandDetectionCapability \<Rightarrow> addon \<Rightarrow> (error + nat option) \<times> addon" where
  "executingStep capability w =
     (case executingCommandObject capability of
        None \<Rightarrow> (Inr None, w)
      | Some c \<Rightarrow> if marker c \<noteq> None then registerCommandDecoration c True w else (Inr None, w))"






text \<open>A capability with an executing command and no finished command.\<close>

definition executingCapability :: ICommandDetectionCapability where
  "executingCapability = \<lparr>executingCommandObject = Some commandA, commands = []\<rparr>"

text \<open>The addon activated while \<^verbatim>\<open>ls\<close> is executing and no command has finished.\<close>

definition executingAddon :: addon where
  "executingAddon = snd (activate (constructed exampleConfig (Some executingCapability)))"

section \<open>Style Resolver, Layout Calculator and context menu: results\<close>

lemmas DecorationSelector_defs =
  CommandDecoration_def Hide_def ErrorColor_def DefaultColor_def Default_def Codicon_def
  XtermDecoration_def GenericMarkerIcon_def

text \<open>
  C5. The class set of an element after \<^verbatim>\<open>_updateClasses\<close> is not a function of
  the exit code, the generic mark and the configured icons alone: the clearing loop walks
  the live class list by index and leaves every second class in place. After a first
  rendering with the icon \<^verbatim>\<open>circle-outline\<close>, a refresh under the icon
  \<^verbatim>\<open>circle-filled\<close> keeps the class \<^verbatim>\<open>codicon-circle-outline\<close>, which the
  same call on a freshly created element does not produce.
\<close>

theorem updateClasses_stale_icon:
  "map_option classList
     (updateClasses (exampleConfig\<lparr>ShellIntegrationDecorationIcon := ''circle-filled''\<rparr>)
        (updateClasses exampleConfig (Some freshElement) None None) None None) =
     Some [''codicon'', ''default-color'', ''codicon-circle-outline'',
           ''terminal-command-decoration'', ''xterm-decoration'', ''default'',
           ''codicon-circle-filled'']
   \<and> map_option classList
     (updateClasses (exampleConfig\<lparr>ShellIntegrationDecorationIcon := ''circle-filled''\<rparr>)
        (Some freshElement) None None) =
     Some [''terminal-command-decoration'', ''codicon'', ''xterm-decoration'',
           ''default-color'', ''default'', ''codicon-circle-filled'']"
  by (simp add: updateClasses_def exampleConfig_def freshElement_def removeEach.simps addAll_def
      classList_add_def classList_remove_def DecorationSelector_defs)

text \<open>
  C6, as amended. The entries of the context menu are: rerun and copy command when the
  command text is not empty; copy output and copy output as HTML when the command has
  output, after a separator only when the text is not empty; then the learn-more action,
  after a separator only when something stands before it.
\<close>

theorem getCommandActions_entries:
  "map menuEntry (getCommandActions c) =
     (if command c \<noteq> [] then [Some ''terminal.rerunCommand'', Some ''terminal.copyCommand''] else []) @
     (if hasOutput c
      then (if command c \<noteq> [] then [None] else []) @
           [Some ''terminal.copyOutput'', Some ''terminal.copyOutputAsHtml'']
      else []) @
     (if hasOutput c \<or> command c \<noteq> [] then [None] else []) @
     [Some ''terminal.learnShellIntegration'']"
  by (simp add: getCommandActions_def Let_def)

theorem getCommandActions_entries_witness:
  "map menuEntry (getCommandActions commandB) =
     [Some ''terminal.rerunCommand'', Some ''terminal.copyCommand'', None,
      Some ''terminal.copyOutput'', Some ''terminal.copyOutputAsHtml'', None,
      Some ''terminal.learnShellIntegration'']"
  using getCommandActions_entries [of commandB] by (simp add: commandB_def)

text \<open>
  C6, as stated, fails: a command with empty text and no output gets the learn-more action
  alone, with no separator before it, and with output but empty text the list starts with
  copy output, with no separator before it.
\<close>

theorem getCommandActions_no_separator:
  "map menuEntry (getCommandActions emptyCommand) = [Some ''terminal.learnShellIntegration'']
   \<and> map menuEntry (getCommandActions (emptyCommand\<lparr>hasOutput := True\<rparr>)) =
       [Some ''terminal.copyOutput'', Some ''terminal.copyOutputAsHtml'', None,
        Some ''terminal.learnShellIntegration'']"
  by (simp add: getCommandActions_def emptyCommand_def)



section \<open>Registering decorations and the placeholder\<close>

lemma list_update_snoc:
  "length xs = n \<Longrightarrow> (xs @ [x])[n := y] = xs @ [y]"
  by auto

lemma nth_snoc:
  "length xs = n \<Longrightarrow> (xs @ [x]) ! n = x"
  by auto

subsection \<open>Disposal\<close>

lemma disposeDecoration_length [simp]:
  "length (hostDecorations (disposeDecoration h w)) = length (hostDecorations w)"
  by (simp add: disposeDecoration_def Let_def)

lemma disposeDecoration_disposed:
  "h < length (hostDecorations w) \<Longrightarrow> isDisposed (hostDecorations (disposeDecoration h w) ! h)"
  by (simp add: disposeDecoration_def Let_def)

lemma disposeDecoration_keeps_disposed:
  "isDisposed (hostDecorations w ! k) \<Longrightarrow> isDisposed (hostDecorations (disposeDecoration h w) ! k)"
  by (cases "k = h") (simp_all add: disposeDecoration_def Let_def)

lemma disposeDecoration_other:
  "k \<noteq> h \<Longrightarrow> hostDecorations (disposeDecoration h w) ! k = hostDecorations w ! k"
  by (simp add: disposeDecoration_def Let_def)

lemma disposeDecoration_frame [simp]:
  "terminal (disposeDecoration h w) = terminal w"
  "commandDetectionListeners (disposeDecoration h w) = commandDetectionListeners w"
  "placeholderDecoration (disposeDecoration h w) = placeholderDecoration w"
  "overviewRulerDecorations (disposeDecoration h w) = overviewRulerDecorations w"
  "decorationsDisabled (disposeDecoration h w) = decorationsDisabled w"
  "config (disposeDecoration h w) = config w"
  "capabilities (disposeDecoration h w) = capabilities w"
  "registerCalls (disposeDecoration h w) = registerCalls w"
  "hostCreates (disposeDecoration h w) = hostCreates w"
  "subscriptions (disposeDecoration h w) = subscriptions w"
  "addCapabilityListeners (disposeDecoration h w) = addCapabilityListeners w"
  "removeCapabilityListeners (disposeDecoration h w) = removeCapabilityListeners w"
  "containers (disposeDecoration h w) = containers w"
  "successColor (disposeDecoration h w) = successColor w"
  "errorColor (disposeDecoration h w) = errorColor w"
  "defaultColor (disposeDecoration h w) = defaultColor w"
  by (simp_all add: disposeDecoration_def Let_def)

lemma clearPlaceholder_frame [simp]:
  "terminal (clearPlaceholder w) = terminal w"
  "commandDetectionListeners (clearPlaceholder w) = commandDetectionListeners w"
  "placeholderDecoration (clearPlaceholder w) = None"
  "overviewRulerDecorations (clearPlaceholder w) = overviewRulerDecorations w"
  "decorationsDisabled (clearPlaceholder w) = decorationsDisabled w"
  "config (clearPlaceholder w) = config w"
  "capabilities (clearPlaceholder w) = capabilities w"
  "registerCalls (clearPlaceholder w) = registerCalls w"
  "hostCreates (clearPlaceholder w) = hostCreates w"
  "subscriptions (clearPlaceholder w) = subscriptions w"
  "addCapabilityListeners (clearPlaceholder w) = addCapabilityListeners w"
  "removeCapabilityListeners (clearPlaceholder w) = removeCapabilityListeners w"
  "containers (clearPlaceholder w) = containers w"
  "successColor (clearPlaceholder w) = successColor w"
  "errorColor (clearPlaceholder w) = errorColor w"
  "defaultColor (clearPlaceholder w) = defaultColor w"
  "length (hostDecorations (clearPlaceholder w)) = length (hostDecorations w)"
  by (simp_all add: clearPlaceholder_def Let_def split: option.splits)

lemma clearPlaceholder_disposes:
  "placeholderDecoration w = Some p \<Longrightarrow> p < length (hostDecorations w)
     \<Longrightarrow> isDisposed (hostDecorations (clearPlaceholder w) ! p)"
  by (simp add: clearPlaceholder_def Let_def disposeDecoration_disposed)

lemma clearPlaceholder_keeps_disposed:
  "isDisposed (hostDecorations w ! k) \<Longrightarrow> isDisposed (hostDecorations (clearPlaceholder w) ! k)"
  by (simp add: clearPlaceholder_def Let_def disposeDecoration_keeps_disposed split: option.splits)

lemma clearPlaceholder_other:
  "placeholderDecoration w \<noteq> Some k
     \<Longrightarrow> hostDecorations (clearPlaceholder w) ! k = hostDecorations w ! k"
  by (auto simp add: clearPlaceholder_def Let_def disposeDecoration_other split: option.splits)

lemma commandColor_clearPlaceholder [simp]:
  "commandColor (clearPlaceholder w) code = commandColor w code"
  by (simp add: commandColor_def split: option.splits)

subsection \<open>registerCommandDecoration\<close>

lemma registerCommandDecoration_blocked:
  "\<not> passes c b w \<Longrightarrow> registerCommandDecoration c b w = (Inr None, w)"
  by (auto simp add: passes_def registerCommandDecoration_def)

lemma registerCommandDecoration_no_marker:
  "passes c b w \<Longrightarrow> marker c = None \<Longrightarrow> registerCommandDecoration c b w = (Inl (NoMarker c), w)"
  by (auto simp add: passes_def registerCommandDecoration_def)

lemma registerCommandDecoration_result:
  assumes "passes c b w" and "marker c = Some m"
  shows "fst (registerCommandDecoration c b w) =
           Inr (if hostCreates w (registerCalls w) then Some (length (hostDecorations w)) else None)"
  using assms
  by (auto simp add: passes_def registerCommandDecoration_def registerDecoration_def Let_def)

lemma registerCommandDecoration_hostDecorations:
  assumes "passes c b w" and "marker c = Some m"
  shows "hostDecorations (snd (registerCommandDecoration c b w)) =
           hostDecorations (clearPlaceholder w) @
             (if hostCreates w (registerCalls w) then [newDecoration c b m w] else [])"
  using assms
  by (auto simp add: passes_def registerCommandDecoration_def registerDecoration_def Let_def
      newDecoration_def list_update_snoc nth_snoc)

lemma registerCommandDecoration_placeholder:
  assumes "passes c b w" and "marker c = Some m"
  shows "placeholderDecoration (snd (registerCommandDecoration c b w)) =
           (if b \<and> hostCreates w (registerCalls w) then Some (length (hostDecorations w)) else None)"
  using assms
  by (auto simp add: passes_def registerCommandDecoration_def registerDecoration_def Let_def)

lemma registerCommandDecoration_decorations:
  assumes "passes c b w" and "marker c = Some m"
  shows "decorations (snd (registerCommandDecoration c b w)) = decorations (clearPlaceholder w)"
  using assms
  by (auto simp add: passes_def registerCommandDecoration_def registerDecoration_def Let_def)

lemma registerCommandDecoration_registerCalls:
  assumes "passes c b w" and "marker c = Some m"
  shows "registerCalls (snd (registerCommandDecoration c b w)) = Suc (registerCalls w)"
  using assms
  by (auto simp add: passes_def registerCommandDecoration_def registerDecoration_def Let_def)

lemma registerCommandDecoration_frame [simp]:
  "terminal (snd (registerCommandDecoration c b w)) = terminal w"
  "commandDetectionListeners (snd (registerCommandDecoration c b w)) = commandDetectionListeners w"
  "overviewRulerDecorations (snd (registerCommandDecoration c b w)) = overviewRulerDecorations w"
  "decorationsDisabled (snd (registerCommandDecoration c b w)) = decorationsDisabled w"
  "config (snd (registerCommandDecoration c b w)) = config w"
  "capabilities (snd (registerCommandDecoration c b w)) = capabilities w"
  "hostCreates (snd (registerCommandDecoration c b w)) = hostCreates w"
  "subscriptions (snd (registerCommandDecoration c b w)) = subscriptions w"
  "addCapabilityListeners (snd (registerCommandDecoration c b w)) = addCapabilityListeners w"
  "removeCapabilityListeners (snd (registerCommandDecoration c b w)) = removeCapabilityListeners w"
  "containers (snd (registerCommandDecoration c b w)) = containers w"
  "successColor (snd (registerCommandDecoration c b w)) = successColor w"
  "errorColor (snd (registerCommandDecoration c b w)) = errorColor w"
  "defaultColor (snd (registerCommandDecoration c b w)) = defaultColor w"
  by (simp_all add: registerCommandDecoration_def registerDecoration_def Let_def
      split: option.splits)

text \<open>
  C4. With a terminal set and decorations not disabled, registering the decoration of a
  finished command throws (the result is the error, the state is left as it was) exactly
  when the command has no marker. When there is no terminal, when decorations are disabled,
  or when a placeholder is asked for a command with generic mark properties, the call
  returns no decoration and no error, whether or not the command has a marker.
\<close>

theorem registerCommandDecoration_throws_iff:
  "(terminal w \<and> decorationsDisabled w \<noteq> Some True \<longrightarrow>
      (registerCommandDecoration c False w = (Inl (NoMarker c), w)) = (marker c = None)
      \<and> isl (fst (registerCommandDecoration c False w)) = (marker c = None))
   \<and> (\<not> terminal w \<or> decorationsDisabled w = Some True \<or> (b \<and> genericMarkProperties c \<noteq> None) \<longrightarrow>
      registerCommandDecoration c b w = (Inr None, w))"
proof (intro conjI impI)
  assume g: "terminal w \<and> decorationsDisabled w \<noteq> Some True"
  then have p: "passes c False w" by (simp add: passes_def)
  show "(registerCommandDecoration c False w = (Inl (NoMarker c), w)) = (marker c = None)"
  proof (cases "marker c")
    case None
    then show ?thesis using registerCommandDecoration_no_marker [OF p] by simp
  next
    case (Some m)
    have "fst (registerCommandDecoration c False w) \<noteq> Inl (NoMarker c)"
      using registerCommandDecoration_result [OF p Some] by simp
    then show ?thesis using Some by (auto simp add: prod_eq_iff)
  qed
  show "isl (fst (registerCommandDecoration c False w)) = (marker c = None)"
  proof (cases "marker c")
    case None
    then show ?thesis using registerCommandDecoration_no_marker [OF p] by simp
  next
    case (Some m)
    then show ?thesis using registerCommandDecoration_result [OF p Some] by simp
  qed
next
  assume "\<not> terminal w \<or> decorationsDisabled w = Some True \<or> (b \<and> genericMarkProperties c \<noteq> None)"
  then have "\<not> passes c b w" by (auto simp add: passes_def)
  then show "registerCommandDecoration c b w = (Inr None, w)"
    by (rule registerCommandDecoration_blocked)
qed

text \<open>
  On the activated addon: a finished command without a marker throws, the same command
  with its marker does not, and a placeholder for a generic mark is refused without error.
\<close>

theorem registerCommandDecoration_throws_iff_witness:
  "terminal activeAddon \<and> decorationsDisabled activeAddon \<noteq> Some True
   \<and> registerCommandDecoration (commandB\<lparr>marker := None\<rparr>) False activeAddon =
       (Inl (NoMarker (commandB\<lparr>marker := None\<rparr>)), activeAddon)
   \<and> \<not> isl (fst (registerCommandDecoration commandB False activeAddon))
   \<and> registerCommandDecoration genericCommand True activeAddon = (Inr None, activeAddon)"
proof -
  have g: "terminal activeAddon \<and> decorationsDisabled activeAddon \<noteq> Some True" by code_simp
  have m: "marker (commandB\<lparr>marker := None\<rparr>) = None" "marker commandB \<noteq> None"
    "genericMarkProperties genericCommand \<noteq> None"
    by (simp_all add: commandB_def genericCommand_def)
  show ?thesis
    using g m registerCommandDecoration_throws_iff [where w = activeAddon and c = "commandB\<lparr>marker := None\<rparr>"]
      registerCommandDecoration_throws_iff [where w = activeAddon and c = commandB]
      registerCommandDecoration_throws_iff [where w = activeAddon and c = genericCommand and b = True]
    by simp
qed

text \<open>
  C10. A call of \<^verbatim>\<open>registerCommandDecoration\<close> that passes the guards and has a
  marker disposes the placeholder the addon held, for a final decoration as for a
  placeholder, and also when the terminal creates no decoration; afterwards the placeholder
  field holds the new decoration if the call asked for a placeholder and the terminal
  created one, and nothing otherwise.
\<close>

theorem registerCommandDecoration_clears_placeholder:
  assumes "terminal w" and "decorationsDisabled w \<noteq> Some True"
    and "\<not> (b \<and> genericMarkProperties c \<noteq> None)" and "marker c = Some m"
  shows "(\<forall>p. placeholderDecoration w = Some p \<and> p < length (hostDecorations w) \<longrightarrow>
            isDisposed (hostDecorations (snd (registerCommandDecoration c b w)) ! p))
       \<and> fst (registerCommandDecoration c b w) =
           Inr (if hostCreates w (registerCalls w) then Some (length (hostDecorations w)) else None)
       \<and> placeholderDecoration (snd (registerCommandDecoration c b w)) =
           (if b \<and> hostCreates w (registerCalls w) then Some (length (hostDecorations w)) else None)"
proof -
  have p: "passes c b w" using assms by (simp add: passes_def)
  have "isDisposed (hostDecorations (snd (registerCommandDecoration c b w)) ! q)"
    if "placeholderDecoration w = Some q" and "q < length (hostDecorations w)" for q
    using that clearPlaceholder_disposes [of w q]
    by (simp add: registerCommandDecoration_hostDecorations [OF p assms(4)] nth_append)
  then show ?thesis
    using registerCommandDecoration_result [OF p assms(4)]
      registerCommandDecoration_placeholder [OF p assms(4)]
    by blast
qed

text \<open>
  After \<^verbatim>\<open>ls\<close> has started (placeholder 1): the final decoration of another command
  disposes it, and so does a placeholder request that the terminal refuses.
\<close>

theorem registerCommandDecoration_clears_placeholder_witness:
  "placeholderDecoration startedAddon = Some 1
   \<and> \<not> isDisposed (hostDecorations startedAddon ! 1)
   \<and> isDisposed (hostDecorations (snd (registerCommandDecoration commandB False startedAddon)) ! 1)
   \<and> fst (registerCommandDecoration commandB False startedAddon) = Inr (Some 2)
   \<and> placeholderDecoration (snd (registerCommandDecoration commandB False startedAddon)) = None
   \<and> isDisposed (hostDecorations (snd (registerCommandDecoration commandA True
        (startedAddon\<lparr>hostCreates := (\<lambda>n. False)\<rparr>))) ! 1)
   \<and> fst (registerCommandDecoration commandA True (startedAddon\<lparr>hostCreates := (\<lambda>n. False)\<rparr>)) = Inr None
   \<and> placeholderDecoration (snd (registerCommandDecoration commandA True
        (startedAddon\<lparr>hostCreates := (\<lambda>n. False)\<rparr>))) = None"
proof -
  have s: "terminal startedAddon" "decorationsDisabled startedAddon \<noteq> Some True"
    "placeholderDecoration startedAddon = Some 1" "length (hostDecorations startedAddon) = 2"
    "\<not> isDisposed (hostDecorations startedAddon ! 1)" "hostCreates startedAddon (registerCalls startedAddon)"
    by code_simp+
  have m: "marker commandB = Some \<lparr>markerId = 2, line = 7\<rparr>" "genericMarkProperties commandB = None"
    "marker commandA = Some \<lparr>markerId = 1, line = 3\<rparr>" "genericMarkProperties commandA = None"
    by (simp_all add: commandB_def commandA_def)
  show ?thesis
    using s m
      registerCommandDecoration_clears_placeholder [where w = startedAddon and b = False
        and c = commandB and m = "\<lparr>markerId = 2, line = 7\<rparr>"]
      registerCommandDecoration_clears_placeholder [where w = "startedAddon\<lparr>hostCreates := (\<lambda>n. False)\<rparr>"
        and b = True and c = commandA and m = "\<lparr>markerId = 1, line = 3\<rparr>"]
    by simp
qed

lemma onlyPlaceholderNew_refl: "onlyPlaceholderNew w w"
  by (auto simp add: onlyPlaceholderNew_def)

lemma onlyPlaceholderNew_trans:
  "onlyPlaceholderNew w w' \<Longrightarrow> onlyPlaceholderNew w' w'' \<Longrightarrow> onlyPlaceholderNew w w''"
  unfolding onlyPlaceholderNew_def by blast

lemma onCommandStarted_onlyPlaceholderNew:
  "onlyPlaceholderNew w (snd (onCommandStarted c w))"
proof (cases "passes c True w")
  case False
  then show ?thesis
    by (simp add: onCommandStarted_def registerCommandDecoration_blocked onlyPlaceholderNew_refl)
next
  case p: True
  show ?thesis
  proof (cases "marker c")
    case None
    then show ?thesis
      by (simp add: onCommandStarted_def registerCommandDecoration_no_marker [OF p]
          onlyPlaceholderNew_refl)
  next
    case (Some m)
    let ?w' = "snd (registerCommandDecoration c True w)"
    let ?n = "length (hostDecorations w)"
    have hd: "hostDecorations ?w' = hostDecorations (clearPlaceholder w) @
        (if hostCreates w (registerCalls w) then [newDecoration c True m w] else [])"
      by (rule registerCommandDecoration_hostDecorations [OF p Some])
    have ph: "placeholderDecoration ?w' = (if hostCreates w (registerCalls w) then Some ?n else None)"
      using registerCommandDecoration_placeholder [OF p Some] by simp
    have "placeholderDecoration ?w' = Some h
        \<or> (h < ?n \<and> \<not> isDisposed (hostDecorations w ! h) \<and> placeholderDecoration w \<noteq> Some h)"
      if lt: "h < length (hostDecorations ?w')" and live: "\<not> isDisposed (hostDecorations ?w' ! h)" for h
    proof (cases "h < ?n")
      case True
      then have eq: "hostDecorations ?w' ! h = hostDecorations (clearPlaceholder w) ! h"
        by (simp add: hd nth_append)
      have "placeholderDecoration w \<noteq> Some h"
        using live eq True clearPlaceholder_disposes [of w h] by auto
      moreover have "\<not> isDisposed (hostDecorations w ! h)"
        using live eq clearPlaceholder_keeps_disposed [of w h] by auto
      ultimately show ?thesis using True by simp
    next
      case False
      then have "h = ?n \<and> hostCreates w (registerCalls w)"
        using lt by (auto simp add: hd split: if_splits)
      then show ?thesis by (simp add: ph)
    qed
    then show ?thesis by (simp add: onlyPlaceholderNew_def onCommandStarted_def)
  qed
qed

lemma funpow_onlyPlaceholderNew:
  "onlyPlaceholderNew w (((\<lambda>w'. snd (onCommandStarted c w')) ^^ n) w)"
proof (induction n)
  case 0
  show ?case by (simp add: onlyPlaceholderNew_refl)
next
  case (Suc n)
  show ?case
    using onlyPlaceholderNew_trans [OF Suc onCommandStarted_onlyPlaceholderNew] by simp
qed

lemma fireCommandStarted_onlyPlaceholderNew:
  "onlyPlaceholderNew w (fireCommandStarted c w)"
  by (simp add: fireCommandStarted_def funpow_onlyPlaceholderNew)

lemma commandsStarted_onlyPlaceholderNew:
  "onlyPlaceholderNew w (commandsStarted cs w)"
proof (induction cs arbitrary: w)
  case Nil
  show ?case by (simp add: commandsStarted_def onlyPlaceholderNew_refl)
next
  case (Cons c cs)
  have "commandsStarted (c # cs) w = commandsStarted cs (fireCommandStarted c w)"
    by (simp add: commandsStarted_def)
  then show ?case
    using onlyPlaceholderNew_trans [OF fireCommandStarted_onlyPlaceholderNew Cons] by simp
qed

text \<open>
  C1. After any sequence of command-started events, every decoration that is not disposed
  is the one the placeholder field holds, or was there before the sequence, alive and not
  the placeholder: of the placeholders at most one is alive. And when the listener of one
  event creates a placeholder, the one held before is disposed and replaced.
\<close>

theorem at_most_one_placeholder:
  "(\<forall>h < length (hostDecorations (commandsStarted cs w)).
       \<not> isDisposed (hostDecorations (commandsStarted cs w) ! h) \<longrightarrow>
         placeholderDecoration (commandsStarted cs w) = Some h
         \<or> (h < length (hostDecorations w) \<and> \<not> isDisposed (hostDecorations w ! h)
              \<and> placeholderDecoration w \<noteq> Some h))
   \<and> (\<forall>h p. fst (onCommandStarted c w) = Inr (Some h) \<and> placeholderDecoration w = Some p
          \<and> p < length (hostDecorations w) \<longrightarrow>
        h \<noteq> p \<and> isDisposed (hostDecorations (snd (onCommandStarted c w)) ! p)
        \<and> \<not> isDisposed (hostDecorations (snd (onCommandStarted c w)) ! h)
        \<and> placeholderDecoration (snd (onCommandStarted c w)) = Some h)"
proof (rule conjI)
  show "\<forall>h < length (hostDecorations (commandsStarted cs w)).
       \<not> isDisposed (hostDecorations (commandsStarted cs w) ! h) \<longrightarrow>
         placeholderDecoration (commandsStarted cs w) = Some h
         \<or> (h < length (hostDecorations w) \<and> \<not> isDisposed (hostDecorations w ! h)
              \<and> placeholderDecoration w \<noteq> Some h)"
    using commandsStarted_onlyPlaceholderNew [of w cs] by (simp add: onlyPlaceholderNew_def)
next
  show "\<forall>h p. fst (onCommandStarted c w) = Inr (Some h) \<and> placeholderDecoration w = Some p
          \<and> p < length (hostDecorations w) \<longrightarrow>
        h \<noteq> p \<and> isDisposed (hostDecorations (snd (onCommandStarted c w)) ! p)
        \<and> \<not> isDisposed (hostDecorations (snd (onCommandStarted c w)) ! h)
        \<and> placeholderDecoration (snd (onCommandStarted c w)) = Some h"
  proof (intro allI impI)
    fix h p
    assume a: "fst (onCommandStarted c w) = Inr (Some h) \<and> placeholderDecoration w = Some p
            \<and> p < length (hostDecorations w)"
    have p: "passes c True w"
    proof (rule ccontr)
      assume "\<not> passes c True w"
      then show False
        using a by (simp add: onCommandStarted_def registerCommandDecoration_blocked)
    qed
    obtain m where m: "marker c = Some m"
      using a registerCommandDecoration_no_marker [OF p]
      by (cases "marker c") (auto simp add: onCommandStarted_def)
    have r: "hostCreates w (registerCalls w) \<and> h = length (hostDecorations w)"
      using a registerCommandDecoration_result [OF p m]
      by (auto simp add: onCommandStarted_def split: if_splits)
    have hd: "hostDecorations (snd (registerCommandDecoration c True w)) =
        hostDecorations (clearPlaceholder w) @ [newDecoration c True m w]"
      using r registerCommandDecoration_hostDecorations [OF p m] by simp
    show "h \<noteq> p \<and> isDisposed (hostDecorations (snd (onCommandStarted c w)) ! p)
          \<and> \<not> isDisposed (hostDecorations (snd (onCommandStarted c w)) ! h)
          \<and> placeholderDecoration (snd (onCommandStarted c w)) = Some h"
      using a r clearPlaceholder_disposes [of w p] registerCommandDecoration_placeholder [OF p m]
      by (simp add: hd nth_append onCommandStarted_def newDecoration_def)
  qed
qed

text \<open>
  Three commands start on the activated addon, which holds one final decoration: the third
  placeholder is alive, the first two are disposed.
\<close>

theorem at_most_one_placeholder_witness:
  "length (hostDecorations (commandsStarted [commandA, commandB, commandA] activeAddon)) = 4
   \<and> placeholderDecoration (commandsStarted [commandA, commandB, commandA] activeAddon) = Some 3
   \<and> \<not> isDisposed (hostDecorations (commandsStarted [commandA, commandB, commandA] activeAddon) ! 3)
   \<and> isDisposed (hostDecorations (commandsStarted [commandA, commandB, commandA] activeAddon) ! 1)
   \<and> isDisposed (hostDecorations (commandsStarted [commandA, commandB, commandA] activeAddon) ! 2)
   \<and> fst (onCommandStarted commandB startedAddon) = Inr (Some 2)
   \<and> isDisposed (hostDecorations (snd (onCommandStarted commandB startedAddon)) ! 1)
   \<and> placeholderDecoration (snd (onCommandStarted commandB startedAddon)) = Some 2"
proof -
  let ?w = "commandsStarted [commandA, commandB, commandA] activeAddon"
  have e: "length (hostDecorations ?w) = 4" "placeholderDecoration ?w = Some 3"
    "\<not> isDisposed (hostDecorations ?w ! 3)"
    "placeholderDecoration activeAddon = None" "length (hostDecorations activeAddon) = 1"
    "fst (onCommandStarted commandB startedAddon) = Inr (Some 2)"
    "placeholderDecoration startedAddon = Some 1" "length (hostDecorations startedAddon) = 2"
    by code_simp+
  have a: "\<forall>h<4. \<not> isDisposed (hostDecorations ?w ! h) \<longrightarrow> h = 3 \<or> h < 1"
    using at_most_one_placeholder [of "[commandA, commandB, commandA]" activeAddon] e by auto
  have "isDisposed (hostDecorations ?w ! 1)" "isDisposed (hostDecorations ?w ! 2)"
    using a [rule_format, of 1] a [rule_format, of 2] by auto
  moreover have "isDisposed (hostDecorations (snd (onCommandStarted commandB startedAddon)) ! 1)
      \<and> placeholderDecoration (snd (onCommandStarted commandB startedAddon)) = Some 2"
    using at_most_one_placeholder [of "[]" startedAddon commandB] e by simp
  ultimately show ?thesis using e by simp
qed

section \<open>Rebinding the listeners of the capability\<close>

lemma tracked_at_most_one:
  assumes "tracked ss ls"
  shows "length (filter (\<lambda>s. s = (ev, True)) ss) \<le> 1"
proof -
  let ?A = "{i. i < length ss \<and> ss ! i = (ev, True)}"
  have "a = b" if "a \<in> ?A" and "b \<in> ?A" for a b
  proof -
    have "a \<in> set ls" "b \<in> set ls" "fst (ss ! a) = fst (ss ! b)"
      using that assms by (auto simp add: tracked_def)
    moreover have "inj_on (\<lambda>h. fst (ss ! h)) (set ls)"
      using assms by (simp add: tracked_def distinct_map)
    ultimately show ?thesis by (auto dest: inj_onD)
  qed
  then have "card ?A \<le> Suc 0"
    by (subst card_le_Suc0_iff_eq) auto
  then show ?thesis by (simp add: length_filter_conv_card)
qed

lemma disposeListeners_subscriptions_length [simp]:
  "length (subscriptions (disposeListeners ls w)) = length (subscriptions w)"
proof -
  have "length (foldl (\<lambda>ss h. if h < length ss then ss[h := (fst (ss ! h), False)] else ss) ss ls)
      = length ss" for ss :: "(capabilityEvent \<times> bool) list"
    by (induction ls arbitrary: ss) simp_all
  then show ?thesis by (simp add: disposeListeners_def)
qed

lemma foldl_dispose_nth:
  "h < length ss \<Longrightarrow>
   foldl (\<lambda>ss h. if h < length ss then ss[h := (fst (ss ! h), False)] else ss) ss ls ! h
     = (fst (ss ! h), snd (ss ! h) \<and> h \<notin> set ls)"
proof (induction ls arbitrary: ss)
  case Nil
  then show ?case by simp
next
  case (Cons a ls)
  show ?case
  proof (cases "a < length ss")
    case True
    then show ?thesis using Cons.prems Cons.IH [of "ss[a := (fst (ss ! a), False)]"]
      by (cases "a = h") auto
  next
    case False
    then show ?thesis using Cons.prems Cons.IH [of ss] by auto
  qed
qed

lemma disposeListeners_nth:
  "h < length (subscriptions w) \<Longrightarrow>
   subscriptions (disposeListeners ls w) ! h
     = (fst (subscriptions w ! h), snd (subscriptions w ! h) \<and> h \<notin> set ls)"
  by (simp add: disposeListeners_def foldl_dispose_nth)

lemma disposeListeners_listeners [simp]:
  "commandDetectionListeners (disposeListeners ls w) = commandDetectionListeners w"
  "capabilities (disposeListeners ls w) = capabilities w"
  "addCapabilityListeners (disposeListeners ls w) = addCapabilityListeners w"
  "removeCapabilityListeners (disposeListeners ls w) = removeCapabilityListeners w"
  by (simp_all add: disposeListeners_def)

lemma disposedFirst_inactive:
  assumes "listenersTracked w" and "h < length (subscriptions w)"
  shows "\<not> snd (subscriptions (disposedFirst w) ! h)"
  using assms
  by (auto simp add: disposedFirst_def listenersTracked_def listenersOf_def tracked_def
      disposeListeners_nth split: option.splits)

lemma disposedFirst_length [simp]:
  "length (subscriptions (disposedFirst w)) = length (subscriptions w)"
  by (simp add: disposedFirst_def split: option.splits)

lemma disposedFirst_fst:
  "h < length (subscriptions w)
     \<Longrightarrow> fst (subscriptions (disposedFirst w) ! h) = fst (subscriptions w ! h)"
  by (simp add: disposedFirst_def disposeListeners_nth split: option.splits)

lemma disposedFirst_listeners [simp]:
  "commandDetectionListeners (disposedFirst w) = commandDetectionListeners w"
  "capabilities (disposedFirst w) = capabilities w"
  by (simp_all add: disposedFirst_def split: option.splits)

lemma disposedFirst_tracked:
  assumes "listenersTracked w"
  shows "listenersTracked (disposedFirst w)"
proof -
  have lo: "listenersOf (disposedFirst w) = listenersOf w"
    by (simp add: listenersOf_def)
  have t: "tracked (subscriptions w) (listenersOf w)"
    using assms by (simp add: listenersTracked_def)
  have m: "map (\<lambda>h. fst (subscriptions (disposedFirst w) ! h)) (listenersOf w)
      = map (\<lambda>h. fst (subscriptions w ! h)) (listenersOf w)"
    using t by (simp add: tracked_def disposedFirst_fst)
  have "tracked (subscriptions (disposedFirst w)) (listenersOf w)"
    unfolding tracked_def m
    using t disposedFirst_inactive [OF assms] by (simp add: tracked_def)
  then show ?thesis by (simp add: listenersTracked_def lo)
qed

lemma freshlyBound_subscribe:
  "freshlyBound S es w \<Longrightarrow> freshlyBound S (es @ [e]) (subscribe e w)"
  by (simp add: freshlyBound_def subscribe_def)

lemma freshlyBound_tracked:
  assumes "freshlyBound S es w" and "\<forall>s \<in> set S. \<not> snd s" and "distinct es"
  shows "listenersTracked w"
proof -
  have ss: "subscriptions w = S @ map (\<lambda>e. (e, True)) es"
    and ls: "listenersOf w = [length S ..< length S + length es]"
    using assms(1) by (simp_all add: freshlyBound_def listenersOf_def)
  have m: "map (\<lambda>h. fst (subscriptions w ! h)) (listenersOf w) = es"
    by (rule nth_equalityI) (simp_all add: ss ls nth_append)
  have "h \<in> set (listenersOf w)" if "h < length (subscriptions w)" and "snd (subscriptions w ! h)" for h
  proof (cases "h < length S")
    case True
    then show ?thesis using that assms(2) by (auto simp add: ss nth_append)
  next
    case False
    then show ?thesis using that by (simp add: ss ls)
  qed
  then show ?thesis
    using assms(3) by (auto simp add: listenersTracked_def tracked_def m) (simp add: ss ls)
qed

lemma registerAll_Cons_snd:
  "snd (registerAll (c # cs) w) =
     (if isl (fst (registerCommandDecoration c False w))
      then snd (registerCommandDecoration c False w)
      else snd (registerAll cs (snd (registerCommandDecoration c False w))))"
  by (simp split: prod.splits sum.splits)

lemma registerAll_preserves:
  assumes "\<And>c w. f (snd (registerCommandDecoration c False w)) = f w"
  shows "f (snd (registerAll cs w)) = f w"
proof (induction cs arbitrary: w)
  case Nil
  show ?case by simp
next
  case (Cons c cs)
  show ?case
    using Cons [of "snd (registerCommandDecoration c False w)"] assms [of c w]
    unfolding registerAll_Cons_snd by simp
qed

lemma registerAll_frame [simp]:
  "terminal (snd (registerAll cs w)) = terminal w"
  "commandDetectionListeners (snd (registerAll cs w)) = commandDetectionListeners w"
  "overviewRulerDecorations (snd (registerAll cs w)) = overviewRulerDecorations w"
  "decorationsDisabled (snd (registerAll cs w)) = decorationsDisabled w"
  "config (snd (registerAll cs w)) = config w"
  "capabilities (snd (registerAll cs w)) = capabilities w"
  "hostCreates (snd (registerAll cs w)) = hostCreates w"
  "subscriptions (snd (registerAll cs w)) = subscriptions w"
  "addCapabilityListeners (snd (registerAll cs w)) = addCapabilityListeners w"
  "removeCapabilityListeners (snd (registerAll cs w)) = removeCapabilityListeners w"
  "containers (snd (registerAll cs w)) = containers w"
  "successColor (snd (registerAll cs w)) = successColor w"
  "errorColor (snd (registerAll cs w)) = errorColor w"
  "defaultColor (snd (registerAll cs w)) = defaultColor w"
  by (rule registerAll_preserves, simp)+

lemma freshlyBound_same:
  "subscriptions w' = subscriptions w \<Longrightarrow> commandDetectionListeners w' = commandDetectionListeners w
     \<Longrightarrow> freshlyBound S es w \<Longrightarrow> freshlyBound S es w'"
  by (simp add: freshlyBound_def)

lemma addCommandDetectionListeners_alt:
  "addCommandDetectionListeners w =
     (case capabilities w of
        None \<Rightarrow> (Inr (), disposedFirst w)
      | Some capability \<Rightarrow>
          (case (case executingCommandObject capability of
                   None \<Rightarrow> (Inr None, (disposedFirst w)\<lparr>commandDetectionListeners := Some []\<rparr>)
                 | Some c \<Rightarrow>
                     if marker c \<noteq> None
                     then registerCommandDecoration c True
                            ((disposedFirst w)\<lparr>commandDetectionListeners := Some []\<rparr>)
                     else (Inr None, (disposedFirst w)\<lparr>commandDetectionListeners := Some []\<rparr>)) of
             (Inl e, w3) \<Rightarrow> (Inl e, w3)
           | (Inr _, w3) \<Rightarrow>
               (case registerAll (commands capability) (subscribe CommandStarted w3) of
                  (Inl e, w4) \<Rightarrow> (Inl e, w4)
                | (Inr _, w4) \<Rightarrow>
                    (Inr (), subscribe CurrentCommandInvalidated
                       (subscribe CommandInvalidated (subscribe CommandFinished w4))))))"
proof -
  have c: "capabilities (disposedFirst w) = capabilities w" by simp
  show ?thesis
    unfolding addCommandDetectionListeners_def Let_def c [symmetric]
    unfolding disposedFirst_def ..
qed

lemma addCommandDetectionListeners_shape:
  "(capabilities w = None
      \<and> subscriptions (snd (addCommandDetectionListeners w)) = subscriptions (disposedFirst w)
      \<and> commandDetectionListeners (snd (addCommandDetectionListeners w)) = commandDetectionListeners w)
   \<or> (\<exists>es. freshlyBound (subscriptions (disposedFirst w)) es (snd (addCommandDetectionListeners w))
          \<and> distinct es)"
proof (cases "capabilities w")
  case None
  then show ?thesis
    by (simp add: addCommandDetectionListeners_alt)
next
  case (Some capability)
  let ?S = "subscriptions (disposedFirst w)"
  let ?w2 = "(disposedFirst w)\<lparr>commandDetectionListeners := Some []\<rparr>"
  obtain r3 w3 where e3:
    "(case executingCommandObject capability of
        None \<Rightarrow> (Inr None, ?w2)
      | Some c \<Rightarrow> if marker c \<noteq> None then registerCommandDecoration c True ?w2
                 else (Inr None, ?w2)) = (r3, w3)"
    by (cases "case executingCommandObject capability of
        None \<Rightarrow> (Inr None, ?w2)
      | Some c \<Rightarrow> if marker c \<noteq> None then registerCommandDecoration c True ?w2
                 else (Inr None, ?w2)") auto
  have b2: "freshlyBound ?S [] ?w2" by (simp add: freshlyBound_def)
  have "subscriptions w3 = subscriptions ?w2 \<and> commandDetectionListeners w3 = commandDetectionListeners ?w2"
  proof (cases "executingCommandObject capability")
    case None
    then show ?thesis using e3 by simp
  next
    case (Some c)
    show ?thesis
    proof (cases "marker c")
      case None
      then show ?thesis using e3 Some by simp
    next
      case m: (Some m)
      have "w3 = snd (registerCommandDecoration c True ?w2)" using e3 Some m by simp
      then show ?thesis by simp
    qed
  qed
  then have b3: "freshlyBound ?S [] w3" using b2 by (simp add: freshlyBound_def)
  have unfold: "addCommandDetectionListeners w =
      (case r3 of
         Inl e \<Rightarrow> (Inl e, w3)
       | Inr _ \<Rightarrow>
           (case registerAll (commands capability) (subscribe CommandStarted w3) of
              (Inl e, w4) \<Rightarrow> (Inl e, w4)
            | (Inr _, w4) \<Rightarrow>
                (Inr (), subscribe CurrentCommandInvalidated
                   (subscribe CommandInvalidated (subscribe CommandFinished w4)))))"
    unfolding addCommandDetectionListeners_alt Some option.case e3 prod.case ..
  show ?thesis
  proof (cases r3)
    case (Inl e)
    then have "snd (addCommandDetectionListeners w) = w3" by (simp add: unfold)
    then show ?thesis using b3 by auto
  next
    case (Inr x)
    obtain r4 w4 where e4: "registerAll (commands capability) (subscribe CommandStarted w3) = (r4, w4)"
      by (cases "registerAll (commands capability) (subscribe CommandStarted w3)")
    have w4: "w4 = snd (registerAll (commands capability) (subscribe CommandStarted w3))"
      by (simp add: e4)
    have b4: "freshlyBound ?S [CommandStarted] w4"
      using freshlyBound_subscribe [OF b3, of CommandStarted]
      by (simp add: w4 freshlyBound_def)
    show ?thesis
    proof (cases r4)
      case (Inl e)
      then have "snd (addCommandDetectionListeners w) = w4" by (simp add: unfold Inr e4)
      then show ?thesis using b4 by auto
    next
      case r4: (Inr y)
      have "snd (addCommandDetectionListeners w) =
          subscribe CurrentCommandInvalidated
            (subscribe CommandInvalidated (subscribe CommandFinished w4))"
        by (simp add: unfold Inr e4 r4)
      moreover have "freshlyBound ?S boundEvents
          (subscribe CurrentCommandInvalidated
            (subscribe CommandInvalidated (subscribe CommandFinished w4)))"
        using freshlyBound_subscribe [OF freshlyBound_subscribe [OF freshlyBound_subscribe [OF b4]]]
        by (simp add: boundEvents_def)
      moreover have "distinct boundEvents" by (simp add: boundEvents_def)
      ultimately show ?thesis by auto
    qed
  qed
qed

lemma addCommandDetectionListeners_tracked:
  assumes "listenersTracked w"
  shows "listenersTracked (snd (addCommandDetectionListeners w))"
proof -
  have inact: "\<forall>s \<in> set (subscriptions (disposedFirst w)). \<not> snd s"
  proof
    fix s
    assume "s \<in> set (subscriptions (disposedFirst w))"
    then obtain i where "i < length (subscriptions w)" and "s = subscriptions (disposedFirst w) ! i"
      by (auto simp add: in_set_conv_nth)
    then show "\<not> snd s" using disposedFirst_inactive [OF assms, of i] by simp
  qed
  from addCommandDetectionListeners_shape [of w] show ?thesis
  proof (elim disjE conjE exE)
    assume "subscriptions (snd (addCommandDetectionListeners w)) = subscriptions (disposedFirst w)"
      and "commandDetectionListeners (snd (addCommandDetectionListeners w)) = commandDetectionListeners w"
    then show ?thesis
      using disposedFirst_tracked [OF assms] by (simp add: listenersTracked_def listenersOf_def)
  next
    fix es
    assume "freshlyBound (subscriptions (disposedFirst w)) es (snd (addCommandDetectionListeners w))"
      and "distinct es"
    then show ?thesis using inact by (auto intro: freshlyBound_tracked)
  qed
qed

lemma addCommandDetectionListeners_disposes_old:
  assumes "listenersTracked w" and "h < length (subscriptions w)"
  shows "\<not> snd (subscriptions (snd (addCommandDetectionListeners w)) ! h)"
proof -
  from addCommandDetectionListeners_shape [of w] show ?thesis
  proof (elim disjE conjE exE)
    assume "subscriptions (snd (addCommandDetectionListeners w)) = subscriptions (disposedFirst w)"
    then show ?thesis using disposedFirst_inactive [OF assms] by simp
  next
    fix es
    assume "freshlyBound (subscriptions (disposedFirst w)) es (snd (addCommandDetectionListeners w))"
    then show ?thesis
      using disposedFirst_inactive [OF assms] assms(2) by (simp add: freshlyBound_def nth_append)
  qed
qed

lemma listenersTracked_same:
  "subscriptions w' = subscriptions w \<Longrightarrow> commandDetectionListeners w' = commandDetectionListeners w
     \<Longrightarrow> listenersTracked w' = listenersTracked w"
  by (simp add: listenersTracked_def listenersOf_def)

lemma attachToCommandCapability_snd:
  "snd (attachToCommandCapability w) =
     (if capabilities w \<noteq> None
      then (if isl (fst (addCommandDetectionListeners w))
            then snd (addCommandDetectionListeners w)
            else (snd (addCommandDetectionListeners w))
                   \<lparr>removeCapabilityListeners :=
                      Suc (removeCapabilityListeners (snd (addCommandDetectionListeners w)))\<rparr>)
      else w\<lparr>addCapabilityListeners := Suc (addCapabilityListeners w),
             removeCapabilityListeners := Suc (removeCapabilityListeners w)\<rparr>)"
  by (simp add: attachToCommandCapability_def split: prod.splits sum.splits)

lemma attachToCommandCapability_tracked:
  assumes "listenersTracked w"
  shows "listenersTracked (snd (attachToCommandCapability w))"
  using assms addCommandDetectionListeners_tracked [OF assms]
  by (simp add: attachToCommandCapability_snd listenersTracked_def listenersOf_def)

lemma updateGutterDecorationVisibility_frame [simp]:
  "subscriptions (updateGutterDecorationVisibility v w) = subscriptions w"
  "commandDetectionListeners (updateGutterDecorationVisibility v w) = commandDetectionListeners w"
  "placeholderDecoration (updateGutterDecorationVisibility v w) = placeholderDecoration w"
  "decorations (updateGutterDecorationVisibility v w) = decorations w"
  "hostDecorations (updateGutterDecorationVisibility v w) = hostDecorations w"
  "capabilities (updateGutterDecorationVisibility v w) = capabilities w"
  "terminal (updateGutterDecorationVisibility v w) = terminal w"
  "config (updateGutterDecorationVisibility v w) = config w"
  "hostCreates (updateGutterDecorationVisibility v w) = hostCreates w"
  "registerCalls (updateGutterDecorationVisibility v w) = registerCalls w"
  "overviewRulerDecorations (updateGutterDecorationVisibility v w) = overviewRulerDecorations w"
  "decorationsDisabled (updateGutterDecorationVisibility v w) = decorationsDisabled w"
  by (simp_all add: updateGutterDecorationVisibility_def)

lemma stripOverviewRuler_frame [simp]:
  "subscriptions (stripOverviewRuler h w) = subscriptions w"
  "commandDetectionListeners (stripOverviewRuler h w) = commandDetectionListeners w"
  "placeholderDecoration (stripOverviewRuler h w) = placeholderDecoration w"
  "decorations (stripOverviewRuler h w) = decorations w"
  "capabilities (stripOverviewRuler h w) = capabilities w"
  "terminal (stripOverviewRuler h w) = terminal w"
  "config (stripOverviewRuler h w) = config w"
  "hostCreates (stripOverviewRuler h w) = hostCreates w"
  "registerCalls (stripOverviewRuler h w) = registerCalls w"
  "overviewRulerDecorations (stripOverviewRuler h w) = overviewRulerDecorations w"
  "decorationsDisabled (stripOverviewRuler h w) = decorationsDisabled w"
  "length (hostDecorations (stripOverviewRuler h w)) = length (hostDecorations w)"
  by (simp_all add: stripOverviewRuler_def)

lemma foldl_preserves:
  assumes "\<And>x w. f (g w x) = f w"
  shows "f (foldl g w xs) = f w"
  by (induction xs arbitrary: w) (simp_all add: assms)

lemma stripAll_frame [simp]:
  "subscriptions (foldl (\<lambda>w' kv. stripOverviewRuler (decoration (snd kv)) w') w kvs) = subscriptions w"
  "commandDetectionListeners (foldl (\<lambda>w' kv. stripOverviewRuler (decoration (snd kv)) w') w kvs)
     = commandDetectionListeners w"
  "capabilities (foldl (\<lambda>w' kv. stripOverviewRuler (decoration (snd kv)) w') w kvs) = capabilities w"
  "decorations (foldl (\<lambda>w' kv. stripOverviewRuler (decoration (snd kv)) w') w kvs) = decorations w"
  "placeholderDecoration (foldl (\<lambda>w' kv. stripOverviewRuler (decoration (snd kv)) w') w kvs)
     = placeholderDecoration w"
  "terminal (foldl (\<lambda>w' kv. stripOverviewRuler (decoration (snd kv)) w') w kvs) = terminal w"
  "config (foldl (\<lambda>w' kv. stripOverviewRuler (decoration (snd kv)) w') w kvs) = config w"
  "hostCreates (foldl (\<lambda>w' kv. stripOverviewRuler (decoration (snd kv)) w') w kvs) = hostCreates w"
  "registerCalls (foldl (\<lambda>w' kv. stripOverviewRuler (decoration (snd kv)) w') w kvs) = registerCalls w"
  "length (hostDecorations (foldl (\<lambda>w' kv. stripOverviewRuler (decoration (snd kv)) w') w kvs))
     = length (hostDecorations w)"
  by (rule foldl_preserves, simp)+

lemma disposeEach_preserves:
  assumes "\<And>h w. f (disposeDecoration h w) = f w"
  shows "f (disposeEach ks w) = f w"
  by (induction ks arbitrary: w) (simp_all add: assms split: option.splits)

lemma disposeEach_frame [simp]:
  "subscriptions (disposeEach ks w) = subscriptions w"
  "commandDetectionListeners (disposeEach ks w) = commandDetectionListeners w"
  "capabilities (disposeEach ks w) = capabilities w"
  "placeholderDecoration (disposeEach ks w) = placeholderDecoration w"
  "terminal (disposeEach ks w) = terminal w"
  "config (disposeEach ks w) = config w"
  "hostCreates (disposeEach ks w) = hostCreates w"
  "registerCalls (disposeEach ks w) = registerCalls w"
  "overviewRulerDecorations (disposeEach ks w) = overviewRulerDecorations w"
  "decorationsDisabled (disposeEach ks w) = decorationsDisabled w"
  "length (hostDecorations (disposeEach ks w)) = length (hostDecorations w)"
  by (rule disposeEach_preserves, simp)+

lemma updateDecorationVisibility_tracked:
  assumes "listenersTracked w"
  shows "listenersTracked (snd (updateDecorationVisibility w))"
proof (cases "ShellIntegrationDecorationsEnabled (config w)")
  case Never
  then show ?thesis
    using assms by (simp add: updateDecorationVisibility_def listenersTracked_def listenersOf_def)
next
  case Both
  let ?w0 = "updateGutterDecorationVisibility True w"
  obtain r1 x where e: "attachToCommandCapability ?w0 = (r1, x)"
    by (cases "attachToCommandCapability ?w0")
  have t0: "listenersTracked ?w0"
    using assms by (simp add: listenersTracked_def listenersOf_def)
  have t1: "listenersTracked x"
    using attachToCommandCapability_tracked [OF t0] by (simp add: e)
  have "listenersTracked (x\<lparr>overviewRulerDecorations := Some True, decorationsDisabled := Some False\<rparr>)"
    using t1 by (simp add: listenersTracked_def listenersOf_def)
  then have "listenersTracked (snd (attachToCommandCapability
      (x\<lparr>overviewRulerDecorations := Some True, decorationsDisabled := Some False\<rparr>)))"
    by (rule attachToCommandCapability_tracked)
  then show ?thesis
    using t1 Both by (cases r1) (simp_all add: updateDecorationVisibility_def e)
next
  case Gutter
  let ?w1 = "updateGutterDecorationVisibility True w"
  let ?w2 = "case placeholderDecoration ?w1 of Some p \<Rightarrow> stripOverviewRuler p ?w1 | None \<Rightarrow> ?w1"
  let ?w3 = "foldl (\<lambda>w' kv. stripOverviewRuler (decoration (snd kv)) w') ?w2 (decorations ?w2)"
  have "subscriptions ?w2 = subscriptions w \<and> commandDetectionListeners ?w2 = commandDetectionListeners w"
    by (simp split: option.splits)
  then have "listenersTracked (?w3\<lparr>overviewRulerDecorations := Some False, decorationsDisabled := Some False\<rparr>)"
    using assms by (simp add: listenersTracked_def listenersOf_def)
  then have "listenersTracked (snd (attachToCommandCapability
      (?w3\<lparr>overviewRulerDecorations := Some False, decorationsDisabled := Some False\<rparr>)))"
    by (rule attachToCommandCapability_tracked)
  then show ?thesis using Gutter by (simp add: updateDecorationVisibility_def Let_def)
next
  case OverviewRuler
  have "listenersTracked ((updateGutterDecorationVisibility False w)
      \<lparr>overviewRulerDecorations := Some True, decorationsDisabled := Some False\<rparr>)"
    using assms by (simp add: listenersTracked_def listenersOf_def)
  then have "listenersTracked (snd (attachToCommandCapability ((updateGutterDecorationVisibility False w)
      \<lparr>overviewRulerDecorations := Some True, decorationsDisabled := Some False\<rparr>)))"
    by (rule attachToCommandCapability_tracked)
  then show ?thesis using OverviewRuler by (simp add: updateDecorationVisibility_def)
next
  case Unrecognised
  then show ?thesis using assms by (simp add: updateDecorationVisibility_def)
qed

lemma onDidChangeDecorationsEnabled_tracked:
  assumes "listenersTracked w"
  shows "listenersTracked (snd (onDidChangeDecorationsEnabled mode w))"
proof -
  let ?w0 = "w\<lparr>config := (config w)\<lparr>ShellIntegrationDecorationsEnabled := mode\<rparr>\<rparr>"
  let ?w1 = "case placeholderDecoration ?w0 of Some p \<Rightarrow> disposeDecoration p ?w0 | None \<Rightarrow> ?w0"
  let ?w2 = "disposeEach (map fst (decorations ?w1)) ?w1"
  have "subscriptions ?w1 = subscriptions w \<and> commandDetectionListeners ?w1 = commandDetectionListeners w"
    by (simp split: option.splits)
  then have "listenersTracked ?w2"
    using assms by (simp add: listenersTracked_def listenersOf_def)
  then have "listenersTracked (snd (updateDecorationVisibility ?w2))"
    by (rule updateDecorationVisibility_tracked)
  then show ?thesis by (simp add: onDidChangeDecorationsEnabled_def Let_def)
qed

lemma activate_tracked:
  assumes "listenersTracked w"
  shows "listenersTracked (snd (activate w))"
proof -
  have "listenersTracked (w\<lparr>terminal := True\<rparr>)"
    using assms by (simp add: listenersTracked_def listenersOf_def)
  then show ?thesis unfolding activate_def by (rule attachToCommandCapability_tracked)
qed

lemma funpow_tracked:
  assumes "\<And>w. listenersTracked w \<Longrightarrow> listenersTracked (f w)" and "listenersTracked w"
  shows "listenersTracked ((f ^^ n) w)"
  by (induction n) (simp_all add: assms)

lemma capabilityAdded_tracked:
  assumes "listenersTracked w"
  shows "listenersTracked (capabilityAdded capability w)"
proof -
  have "listenersTracked (w\<lparr>capabilities := Some capability\<rparr>)"
    using assms by (simp add: listenersTracked_def listenersOf_def)
  then show ?thesis
    unfolding capabilityAdded_def
    by (rule funpow_tracked [rotated]) (rule addCommandDetectionListeners_tracked)
qed

lemma onDidRemoveCapability_tracked:
  assumes "listenersTracked w"
  shows "listenersTracked (onDidRemoveCapability w)"
proof (cases "commandDetectionListeners w")
  case None
  then show ?thesis using assms by (simp add: onDidRemoveCapability_def)
next
  case (Some ls)
  have d: "disposedFirst w = disposeListeners ls w" by (simp add: disposedFirst_def Some)
  have "\<not> snd (subscriptions (disposeListeners ls w) ! h)" if "h < length (subscriptions w)" for h
    using disposedFirst_inactive [OF assms that] by (simp add: d)
  then show ?thesis
    by (simp add: onDidRemoveCapability_def Some listenersTracked_def listenersOf_def tracked_def)
qed

lemma capabilityRemoved_tracked:
  assumes "listenersTracked w"
  shows "listenersTracked (capabilityRemoved w)"
proof -
  have "listenersTracked (w\<lparr>capabilities := None\<rparr>)"
    using assms by (simp add: listenersTracked_def listenersOf_def)
  then show ?thesis
    unfolding capabilityRemoved_def
    by (rule funpow_tracked [rotated]) (rule onDidRemoveCapability_tracked)
qed

lemma binderStep_tracked:
  "listenersTracked w \<Longrightarrow> listenersTracked (binderStep op w)"
  by (cases op)
    (simp_all add: capabilityAdded_tracked capabilityRemoved_tracked
      onDidChangeDecorationsEnabled_tracked activate_tracked)

lemma runBinder_tracked:
  "listenersTracked w \<Longrightarrow> listenersTracked (runBinder ops w)"
  unfolding runBinder_def
  by (induction ops arbitrary: w) (simp_all add: binderStep_tracked)

lemma initialAddon_tracked: "listenersTracked (initialAddon cfg capability)"
  by (simp add: initialAddon_def listenersTracked_def listenersOf_def tracked_def)

lemma constructed_tracked: "listenersTracked (constructed cfg capability)"
  unfolding constructed_def
  by (rule updateDecorationVisibility_tracked [OF initialAddon_tracked])

text \<open>
  C2. From a state in which the addon's list holds every live subscription, one per event,
  any sequence of activations, capability additions, capability removals and changes of
  the visibility mode leads to a state with at most one live subscription per event of the
  capability, so that an event runs at most one listener; and a rebinding there disposes
  every subscription registered before it and again leaves at most one per event.
\<close>

theorem rebinding_keeps_one_subscription:
  assumes "listenersTracked w"
  shows "activeSubscriptions ev (runBinder ops w) \<le> 1
       \<and> (\<forall>h < length (subscriptions (runBinder ops w)).
            \<not> snd (subscriptions (snd (addCommandDetectionListeners (runBinder ops w))) ! h))
       \<and> activeSubscriptions ev (snd (addCommandDetectionListeners (runBinder ops w))) \<le> 1"
proof -
  have t: "listenersTracked (runBinder ops w)" by (rule runBinder_tracked [OF assms])
  have t': "listenersTracked (snd (addCommandDetectionListeners (runBinder ops w)))"
    by (rule addCommandDetectionListeners_tracked [OF t])
  have "activeSubscriptions ev (runBinder ops w) \<le> 1"
    using t tracked_at_most_one [of "subscriptions (runBinder ops w)" _ ev]
    by (simp add: activeSubscriptions_def listenersTracked_def)
  moreover have "activeSubscriptions ev (snd (addCommandDetectionListeners (runBinder ops w))) \<le> 1"
    using t' tracked_at_most_one [of "subscriptions (snd (addCommandDetectionListeners (runBinder ops w)))" _ ev]
    by (simp add: activeSubscriptions_def listenersTracked_def)
  ultimately show ?thesis
    using addCommandDetectionListeners_disposes_old [OF t] by simp
qed

text \<open>
  The constructed addon satisfies the hypothesis. After activation, additions, a removal
  and two changes of mode, 48 subscriptions have been registered and one of them to
  command-started is live.
\<close>

theorem rebinding_keeps_one_subscription_witness:
  "listenersTracked (constructed exampleConfig None)
   \<and> length (subscriptions (runBinder exampleOps (constructed exampleConfig None))) = 48
   \<and> activeSubscriptions CommandStarted (runBinder exampleOps (constructed exampleConfig None)) = 1
   \<and> activeSubscriptions CommandStarted (runBinder exampleOps (constructed exampleConfig None)) \<le> 1
   \<and> \<not> snd (subscriptions (snd (addCommandDetectionListeners
         (runBinder exampleOps (constructed exampleConfig None)))) ! 47)"
proof -
  have e: "length (subscriptions (runBinder exampleOps (constructed exampleConfig None))) = 48"
    "activeSubscriptions CommandStarted (runBinder exampleOps (constructed exampleConfig None)) = 1"
    by code_simp+
  show ?thesis
    using e constructed_tracked [of exampleConfig None]
      rebinding_keeps_one_subscription [OF constructed_tracked, of CommandStarted exampleOps exampleConfig None]
    by simp
qed

section \<open>The map of decorations and disposal\<close>

lemma mapDelete_set: "set (mapDelete k kvs) = {kv \<in> set kvs. fst kv \<noteq> k}"
  by (auto simp add: mapDelete_def)

lemma mapDelete_distinct: "distinct (map fst kvs) \<Longrightarrow> distinct (map fst (mapDelete k kvs))"
  by (simp add: mapDelete_def distinct_map_filter)

lemma mapDelete_absent: "k \<notin> fst ` set kvs \<Longrightarrow> mapDelete k kvs = kvs"
  by (induction kvs) (auto simp add: mapDelete_def)

lemma disposeDecoration_decorations:
  "decorations (disposeDecoration h w) =
     (if h < length (hostDecorations w) \<and> \<not> isDisposed (hostDecorations w ! h)
         \<and> onDisposeDeletes (hostDecorations w ! h)
      then mapDelete (markerId (decorationMarker (hostDecorations w ! h))) (decorations w)
      else decorations w)"
  by (simp add: disposeDecoration_def Let_def)

lemma disposeDecoration_nth:
  "k < length (hostDecorations w) \<Longrightarrow>
   hostDecorations (disposeDecoration h w) ! k =
     (if k = h \<and> \<not> isDisposed (hostDecorations w ! h)
      then (hostDecorations w ! h)\<lparr>isDisposed := True\<rparr>
      else hostDecorations w ! k)"
  by (simp add: disposeDecoration_def Let_def)

lemma disposeDecoration_consistent:
  assumes "registryConsistent w"
  shows "registryConsistent (disposeDecoration h w)"
proof (cases "h < length (hostDecorations w) \<and> \<not> isDisposed (hostDecorations w ! h)")
  case False
  then have "disposeDecoration h w = w" by (auto simp add: disposeDecoration_def)
  then show ?thesis using assms by simp
next
  case live: True
  let ?H = "hostDecorations w"
  let ?k = "markerId (decorationMarker (?H ! h))"
  have d: "distinct (map fst (decorations w))"
    and ent: "\<And>kv. kv \<in> set (decorations w) \<Longrightarrow>
        decoration (snd kv) < length ?H \<and> \<not> isDisposed (?H ! decoration (snd kv))
        \<and> onDisposeDeletes (?H ! decoration (snd kv))
        \<and> markerId (decorationMarker (?H ! decoration (snd kv))) = fst kv"
    and flg: "\<And>g. g < length ?H \<Longrightarrow> \<not> isDisposed (?H ! g) \<Longrightarrow> onDisposeDeletes (?H ! g) \<Longrightarrow>
        \<exists>e. (markerId (decorationMarker (?H ! g)), e) \<in> set (decorations w) \<and> decoration e = g"
    using assms by (auto simp add: registryConsistent_def)
  show ?thesis
  proof (cases "onDisposeDeletes (?H ! h)")
    case False
    have nh: "decoration (snd kv) \<noteq> h" if "kv \<in> set (decorations w)" for kv
      using ent [OF that] False by auto
    have dec: "decorations (disposeDecoration h w) = decorations w"
      using False by (simp add: disposeDecoration_decorations)
    show ?thesis
      unfolding registryConsistent_def dec
    proof (intro conjI ballI allI impI)
      show "distinct (map fst (decorations w))" by (rule d)
    next
      fix kv assume kv: "kv \<in> set (decorations w)"
      show "decoration (snd kv) < length (hostDecorations (disposeDecoration h w))"
        using ent [OF kv] by simp
      show "\<not> isDisposed (hostDecorations (disposeDecoration h w) ! decoration (snd kv))"
        using ent [OF kv] nh [OF kv] by (simp add: disposeDecoration_nth)
      show "onDisposeDeletes (hostDecorations (disposeDecoration h w) ! decoration (snd kv))"
        using ent [OF kv] nh [OF kv] by (simp add: disposeDecoration_nth)
      show "markerId (decorationMarker (hostDecorations (disposeDecoration h w) ! decoration (snd kv))) = fst kv"
        using ent [OF kv] nh [OF kv] by (simp add: disposeDecoration_nth)
    next
      fix g
      assume g: "g < length (hostDecorations (disposeDecoration h w))"
        and a: "\<not> isDisposed (hostDecorations (disposeDecoration h w) ! g)
          \<and> onDisposeDeletes (hostDecorations (disposeDecoration h w) ! g)"
      have gl: "g < length ?H" using g by simp
      have "g \<noteq> h" using a gl live by (auto simp add: disposeDecoration_nth)
      then have "hostDecorations (disposeDecoration h w) ! g = ?H ! g"
        using gl by (simp add: disposeDecoration_nth)
      then show "\<exists>e. (markerId (decorationMarker (hostDecorations (disposeDecoration h w) ! g)), e)
          \<in> set (decorations w) \<and> decoration e = g"
        using flg [OF gl] a by simp
    qed
  next
    case True
    have dec: "decorations (disposeDecoration h w) = mapDelete ?k (decorations w)"
      using live True by (simp add: disposeDecoration_decorations)
    obtain e0 where e0: "(?k, e0) \<in> set (decorations w)" "decoration e0 = h"
      using flg [of h] live True by auto
    have nh: "decoration (snd kv) \<noteq> h" if "kv \<in> set (decorations w)" and "fst kv \<noteq> ?k" for kv
      using ent [OF that(1)] that(2) by auto
    show ?thesis
      unfolding registryConsistent_def dec mapDelete_set
    proof (intro conjI ballI allI impI)
      show "distinct (map fst (mapDelete ?k (decorations w)))"
        by (rule mapDelete_distinct [OF d])
    next
      fix kv assume "kv \<in> {kv \<in> set (decorations w). fst kv \<noteq> ?k}"
      then have kv: "kv \<in> set (decorations w)" and ne: "fst kv \<noteq> ?k" by auto
      show "decoration (snd kv) < length (hostDecorations (disposeDecoration h w))"
        using ent [OF kv] by simp
      show "\<not> isDisposed (hostDecorations (disposeDecoration h w) ! decoration (snd kv))"
        using ent [OF kv] nh [OF kv ne] by (simp add: disposeDecoration_nth)
      show "onDisposeDeletes (hostDecorations (disposeDecoration h w) ! decoration (snd kv))"
        using ent [OF kv] nh [OF kv ne] by (simp add: disposeDecoration_nth)
      show "markerId (decorationMarker (hostDecorations (disposeDecoration h w) ! decoration (snd kv))) = fst kv"
        using ent [OF kv] nh [OF kv ne] by (simp add: disposeDecoration_nth)
    next
      fix g
      assume g: "g < length (hostDecorations (disposeDecoration h w))"
        and a: "\<not> isDisposed (hostDecorations (disposeDecoration h w) ! g)
          \<and> onDisposeDeletes (hostDecorations (disposeDecoration h w) ! g)"
      have gl: "g < length ?H" using g by simp
      have gh: "g \<noteq> h" using a gl live by (auto simp add: disposeDecoration_nth)
      then have same: "hostDecorations (disposeDecoration h w) ! g = ?H ! g"
        using gl by (simp add: disposeDecoration_nth)
      obtain e where e: "(markerId (decorationMarker (?H ! g)), e) \<in> set (decorations w)" "decoration e = g"
        using flg [OF gl] a same by auto
      have "markerId (decorationMarker (?H ! g)) \<noteq> ?k"
      proof
        assume eq: "markerId (decorationMarker (?H ! g)) = ?k"
        have "e = e0" using d e(1) e0(1) eq by (metis eq_key_imp_eq_value)
        then show False using e(2) e0(2) gh by simp
      qed
      then show "\<exists>e. (markerId (decorationMarker (hostDecorations (disposeDecoration h w) ! g)), e)
          \<in> {kv \<in> set (decorations w). fst kv \<noteq> ?k} \<and> decoration e = g"
        using e same by auto
    qed
  qed
qed

lemma disposeEach_keeps_disposed:
  "isDisposed (hostDecorations w ! g) \<Longrightarrow> isDisposed (hostDecorations (disposeEach ks w) ! g)"
  by (induction ks arbitrary: w) (simp_all add: disposeDecoration_keeps_disposed split: option.splits)

lemma consistent_entry:
  assumes "registryConsistent w" and "(k, e) \<in> set (decorations w)"
  shows "map_of (decorations w) k = Some e"
    and "decoration e < length (hostDecorations w)"
    and "decorations (disposeDecoration (decoration e) w) = mapDelete k (decorations w)"
    and "isDisposed (hostDecorations (disposeDecoration (decoration e) w) ! decoration e)"
proof -
  have d: "distinct (map fst (decorations w))"
    using assms(1) by (simp add: registryConsistent_def)
  have ent: "decoration e < length (hostDecorations w)
      \<and> \<not> isDisposed (hostDecorations w ! decoration e)
      \<and> onDisposeDeletes (hostDecorations w ! decoration e)
      \<and> markerId (decorationMarker (hostDecorations w ! decoration e)) = k"
    using assms by (fastforce simp add: registryConsistent_def)
  show "map_of (decorations w) k = Some e" using d assms(2) by simp
  show "decoration e < length (hostDecorations w)" using ent by simp
  show "decorations (disposeDecoration (decoration e) w) = mapDelete k (decorations w)"
    using ent by (simp add: disposeDecoration_decorations)
  show "isDisposed (hostDecorations (disposeDecoration (decoration e) w) ! decoration e)"
    using ent by (simp add: disposeDecoration_disposed)
qed




lemma disposedAll_frame [simp]:
  "subscriptions (disposedAll w) = subscriptions w"
  "commandDetectionListeners (disposedAll w) = commandDetectionListeners w"
  "capabilities (disposedAll w) = capabilities w"
  "placeholderDecoration (disposedAll w) = placeholderDecoration w"
  "terminal (disposedAll w) = terminal w"
  "config (disposedAll w) = config w"
  "hostCreates (disposedAll w) = hostCreates w"
  "registerCalls (disposedAll w) = registerCalls w"
  "overviewRulerDecorations (disposedAll w) = overviewRulerDecorations w"
  "decorationsDisabled (disposedAll w) = decorationsDisabled w"
  "length (hostDecorations (disposedAll w)) = length (hostDecorations w)"
  by (simp_all add: disposedAll_def Let_def split: option.splits)

lemma disposedAll_keeps_disposed:
  "isDisposed (hostDecorations w ! g) \<Longrightarrow> isDisposed (hostDecorations (disposedAll w) ! g)"
  by (simp add: disposedAll_def Let_def disposeEach_keeps_disposed disposeDecoration_keeps_disposed
      split: option.splits)


lemma placeholderRendered_facts: "placeholderDecoration placeholderRendered = Some 0"
  "map fst (decorations placeholderRendered) = [1]"
  "map (decoration \<circ> snd) (decorations placeholderRendered) = [0]"
  "length (hostDecorations placeholderRendered) = 1"
  "\<not> isDisposed (hostDecorations placeholderRendered ! 0)"
  "onDisposeDeletes (hostDecorations placeholderRendered ! 0)"
  "markerId (decorationMarker (hostDecorations placeholderRendered ! 0)) = 1"
  by code_simp+

text \<open>
  C9, as amended. When the current command is invalidated with the reason that no problems
  were reported, while the placeholder has been rendered and its entry is the only one of
  the map, the placeholder's decoration is disposed and the map is empty afterwards. The
  listener does not touch the placeholder field, which still names the disposed decoration.
\<close>

theorem noProblemsReported_disposes_rendered_placeholder:
  assumes "registryConsistent w" and "placeholderDecoration w = Some p"
    and "decorations w = [(k, e)]" and "decoration e = p"
  shows "isDisposed (hostDecorations (onCurrentCommandInvalidated NoProblemsReported w) ! p)
       \<and> decorations (onCurrentCommandInvalidated NoProblemsReported w) = []
       \<and> placeholderDecoration (onCurrentCommandInvalidated NoProblemsReported w) = Some p"
proof -
  have ke: "(k, e) \<in> set (decorations w)" using assms(3) by simp
  have w': "onCurrentCommandInvalidated NoProblemsReported w = disposeDecoration p w"
    using assms(3,4) by (simp add: onCurrentCommandInvalidated_def)
  show ?thesis
    using consistent_entry(3,4) [OF assms(1) ke] assms(2,3,4)
    by (simp add: w' mapDelete_def)
qed

lemma placeholderRendered_consistent: "registryConsistent placeholderRendered"
proof -
  obtain e where e: "decorations placeholderRendered = [(1, e)]" "decoration e = 0"
    using placeholderRendered_facts(2,3) by (cases "decorations placeholderRendered") auto
  show ?thesis
    using placeholderRendered_facts by (simp add: registryConsistent_def e)
qed

text \<open>
  On the addon whose placeholder for \<^verbatim>\<open>ls\<close> has been rendered.
\<close>

theorem noProblemsReported_disposes_rendered_placeholder_witness:
  "placeholderDecoration placeholderRendered = Some 0
   \<and> map fst (decorations placeholderRendered) = [1]
   \<and> \<not> isDisposed (hostDecorations placeholderRendered ! 0)
   \<and> isDisposed (hostDecorations (onCurrentCommandInvalidated NoProblemsReported placeholderRendered) ! 0)
   \<and> decorations (onCurrentCommandInvalidated NoProblemsReported placeholderRendered) = []"
proof -
  obtain e where e: "decorations placeholderRendered = [(1, e)]" "decoration e = 0"
    using placeholderRendered_facts(2,3) by (cases "decorations placeholderRendered") auto
  show ?thesis
    using noProblemsReported_disposes_rendered_placeholder
      [OF placeholderRendered_consistent placeholderRendered_facts(1) e] placeholderRendered_facts
    by simp
qed

text \<open>
  C9, as stated, fails. With the rendered placeholder as the only entry, the placeholder
  field is not none after the event. And while the placeholder has not been rendered, so
  that the map is empty, the event disposes nothing: the placeholder stays alive.
\<close>

theorem noProblemsReported_keeps_placeholder:
  "placeholderDecoration placeholderRendered = Some 0
   \<and> map fst (decorations placeholderRendered) = [1]
   \<and> activeSubscriptions CurrentCommandInvalidated placeholderRendered = 1
   \<and> placeholderDecoration (fireCurrentCommandInvalidated NoProblemsReported placeholderRendered) = Some 0
   \<and> placeholderDecoration placeholderOnly = Some 0
   \<and> decorations placeholderOnly = []
   \<and> activeSubscriptions CurrentCommandInvalidated placeholderOnly = 1
   \<and> \<not> isDisposed (hostDecorations (fireCurrentCommandInvalidated NoProblemsReported placeholderOnly) ! 0)
   \<and> placeholderDecoration (fireCurrentCommandInvalidated NoProblemsReported placeholderOnly) = Some 0"
  by code_simp

section \<open>Changes of the visibility mode\<close>

text \<open>
  A relation between states that holds across every elementary step of a binding holds
  across the binding.
\<close>

lemma registerAll_rel:
  assumes refl: "\<And>w. R w w" and trans: "\<And>a b c. R a b \<Longrightarrow> R b c \<Longrightarrow> R a c"
    and r: "\<And>c b w. R w (snd (registerCommandDecoration c b w))"
  shows "R w (snd (registerAll cs w))"
proof (induction cs arbitrary: w)
  case Nil
  show ?case by (simp add: refl)
next
  case (Cons c cs)
  show ?case
    using r [of w c False] trans [OF r [of w c False] Cons [of "snd (registerCommandDecoration c False w)"]]
    unfolding registerAll_Cons_snd by simp
qed

lemma addCommandDetectionListeners_rel:
  assumes refl: "\<And>w. R w w" and trans: "\<And>a b c. R a b \<Longrightarrow> R b c \<Longrightarrow> R a c"
    and d: "\<And>w. R w (disposedFirst w)"
    and l: "\<And>w. R w (w\<lparr>commandDetectionListeners := Some []\<rparr>)"
    and r: "\<And>c b w. R w (snd (registerCommandDecoration c b w))"
    and s: "\<And>e w. R w (subscribe e w)"
  shows "R w (snd (addCommandDetectionListeners w))"
proof (cases "capabilities w")
  case None
  then show ?thesis by (simp add: addCommandDetectionListeners_alt d)
next
  case (Some capability)
  let ?w2 = "(disposedFirst w)\<lparr>commandDetectionListeners := Some []\<rparr>"
  have r2: "R w ?w2" by (rule trans [OF d l])
  obtain r3 w3 where e3:
    "(case executingCommandObject capability of
        None \<Rightarrow> (Inr None, ?w2)
      | Some c \<Rightarrow> if marker c \<noteq> None then registerCommandDecoration c True ?w2
                 else (Inr None, ?w2)) = (r3, w3)"
    by (cases "case executingCommandObject capability of
        None \<Rightarrow> (Inr None, ?w2)
      | Some c \<Rightarrow> if marker c \<noteq> None then registerCommandDecoration c True ?w2
                 else (Inr None, ?w2)") auto
  have "R ?w2 w3"
  proof (cases "executingCommandObject capability")
    case None
    then show ?thesis using e3 by (simp add: refl)
  next
    case ex: (Some c)
    show ?thesis
    proof (cases "marker c")
      case None
      then show ?thesis using e3 ex by (simp add: refl)
    next
      case (Some m)
      have "w3 = snd (registerCommandDecoration c True ?w2)" using e3 ex Some by simp
      then show ?thesis by (simp add: r)
    qed
  qed
  then have r3: "R w w3" by (rule trans [OF r2])
  have unfold: "addCommandDetectionListeners w =
      (case r3 of
         Inl e \<Rightarrow> (Inl e, w3)
       | Inr _ \<Rightarrow>
           (case registerAll (commands capability) (subscribe CommandStarted w3) of
              (Inl e, w4) \<Rightarrow> (Inl e, w4)
            | (Inr _, w4) \<Rightarrow>
                (Inr (), subscribe CurrentCommandInvalidated
                   (subscribe CommandInvalidated (subscribe CommandFinished w4)))))"
    unfolding addCommandDetectionListeners_alt Some option.case e3 prod.case ..
  show ?thesis
  proof (cases r3)
    case (Inl e)
    then show ?thesis using r3 by (simp add: unfold)
  next
    case (Inr x)
    obtain r4 w4 where e4: "registerAll (commands capability) (subscribe CommandStarted w3) = (r4, w4)"
      by (cases "registerAll (commands capability) (subscribe CommandStarted w3)")
    have "R (subscribe CommandStarted w3) w4"
      using registerAll_rel [of R "subscribe CommandStarted w3" "commands capability", OF refl trans r]
      by (simp add: e4)
    then have r4: "R w w4" using trans [OF r3 trans [OF s]] by blast
    show ?thesis
    proof (cases r4)
      case (Inl e)
      then show ?thesis using r4 by (simp add: unfold Inr e4)
    next
      case i: (Inr y)
      have "R w4 (subscribe CurrentCommandInvalidated
            (subscribe CommandInvalidated (subscribe CommandFinished w4)))"
        using trans [OF s trans [OF s s]] by blast
      then show ?thesis using trans [OF r4] by (simp add: unfold Inr e4 i)
    qed
  qed
qed

lemma attachToCommandCapability_rel:
  assumes refl: "\<And>w. R w w" and trans: "\<And>a b c. R a b \<Longrightarrow> R b c \<Longrightarrow> R a c"
    and d: "\<And>w. R w (disposedFirst w)"
    and l: "\<And>w. R w (w\<lparr>commandDetectionListeners := Some []\<rparr>)"
    and r: "\<And>c b w. R w (snd (registerCommandDecoration c b w))"
    and s: "\<And>e w. R w (subscribe e w)"
    and a: "\<And>n w. R w (w\<lparr>addCapabilityListeners := n\<rparr>)"
    and m: "\<And>n w. R w (w\<lparr>removeCapabilityListeners := n\<rparr>)"
  shows "R w (snd (attachToCommandCapability w))"
proof -
  have b: "R w (snd (addCommandDetectionListeners w))"
    by (rule addCommandDetectionListeners_rel [of R, OF refl trans d l r s])
  show ?thesis
    using b trans [OF b m] trans [OF a m]
    by (simp add: attachToCommandCapability_snd)
qed














lemma keeps_same:
  "hostDecorations w' = hostDecorations w \<Longrightarrow> decorations w' = decorations w \<Longrightarrow> keeps w w'"
  by (simp add: keeps_def)

lemma stripOverviewRuler_nth:
  "g < length (hostDecorations w) \<Longrightarrow>
   hostDecorations (stripOverviewRuler h w) ! g =
     (if g = h then (hostDecorations w ! g)\<lparr>overviewRulerOptions := None\<rparr> else hostDecorations w ! g)"
  by (simp add: stripOverviewRuler_def)





lemma registryConsistent_same:
  "hostDecorations w' = hostDecorations w \<Longrightarrow> decorations w' = decorations w
     \<Longrightarrow> registryConsistent w' = registryConsistent w"
  by (simp add: registryConsistent_def)





lemma registryConsistent_core_imp:
  assumes "map core (hostDecorations w') = map core (hostDecorations w)"
    and "decorations w' = decorations w"
    and "registryConsistent w"
  shows "registryConsistent w'"
proof -
  have len: "length (hostDecorations w') = length (hostDecorations w)"
    using assms(1) by (metis length_map)
  have c: "core (hostDecorations w' ! g) = core (hostDecorations w ! g)"
    if "g < length (hostDecorations w)" for g
    using assms(1) that len by (metis nth_map)
  have f: "isDisposed (hostDecorations w' ! g) = isDisposed (hostDecorations w ! g)
      \<and> onDisposeDeletes (hostDecorations w' ! g) = onDisposeDeletes (hostDecorations w ! g)
      \<and> markerId (decorationMarker (hostDecorations w' ! g))
          = markerId (decorationMarker (hostDecorations w ! g))"
    if "g < length (hostDecorations w)" for g
    using c [OF that] by (simp add: core_def)
  have ent: "decoration (snd kv) < length (hostDecorations w)" if "kv \<in> set (decorations w)" for kv
    using assms(3) that by (simp add: registryConsistent_def)
  show ?thesis
    unfolding registryConsistent_def assms(2) len
  proof (intro conjI ballI allI impI)
    show "distinct (map fst (decorations w))" using assms(3) by (simp add: registryConsistent_def)
  next
    fix kv assume kv: "kv \<in> set (decorations w)"
    show "decoration (snd kv) < length (hostDecorations w)" by (rule ent [OF kv])
    show "\<not> isDisposed (hostDecorations w' ! decoration (snd kv))"
      using assms(3) kv f [OF ent [OF kv]] by (simp add: registryConsistent_def)
    show "onDisposeDeletes (hostDecorations w' ! decoration (snd kv))"
      using assms(3) kv f [OF ent [OF kv]] by (simp add: registryConsistent_def)
    show "markerId (decorationMarker (hostDecorations w' ! decoration (snd kv))) = fst kv"
      using assms(3) kv f [OF ent [OF kv]] by (simp add: registryConsistent_def)
  next
    fix g
    assume g: "g < length (hostDecorations w)"
      and a: "\<not> isDisposed (hostDecorations w' ! g) \<and> onDisposeDeletes (hostDecorations w' ! g)"
    show "\<exists>e. (markerId (decorationMarker (hostDecorations w' ! g)), e) \<in> set (decorations w)
        \<and> decoration e = g"
      using assms(3) g a f [OF g] by (simp add: registryConsistent_def)
  qed
qed

lemma registryConsistent_core:
  assumes "map core (hostDecorations w') = map core (hostDecorations w)"
    and "decorations w' = decorations w"
  shows "registryConsistent w' = registryConsistent w"
  using registryConsistent_core_imp [OF assms] registryConsistent_core_imp [of w w'] assms
  by auto

lemma registryConsistent_append:
  assumes "registryConsistent w"
    and "hostDecorations w' = hostDecorations w @ ds"
    and "\<forall>d \<in> set ds. \<not> onDisposeDeletes d"
    and "decorations w' = decorations w"
  shows "registryConsistent w'"
proof -
  have new: "\<not> onDisposeDeletes (hostDecorations w' ! g)"
    if "length (hostDecorations w) \<le> g" and "g < length (hostDecorations w')" for g
    using that assms(2,3) by (simp add: nth_append)
  have old: "hostDecorations w' ! g = hostDecorations w ! g" if "g < length (hostDecorations w)" for g
    using that assms(2) by (simp add: nth_append)
  have ent: "decoration (snd kv) < length (hostDecorations w)" if "kv \<in> set (decorations w)" for kv
    using assms(1) that by (simp add: registryConsistent_def)
  show ?thesis
    unfolding registryConsistent_def assms(4)
  proof (intro conjI ballI allI impI)
    show "distinct (map fst (decorations w))" using assms(1) by (simp add: registryConsistent_def)
  next
    fix kv assume kv: "kv \<in> set (decorations w)"
    show "decoration (snd kv) < length (hostDecorations w')" using ent [OF kv] assms(2) by simp
    show "\<not> isDisposed (hostDecorations w' ! decoration (snd kv))"
      using assms(1) kv old [OF ent [OF kv]] by (simp add: registryConsistent_def)
    show "onDisposeDeletes (hostDecorations w' ! decoration (snd kv))"
      using assms(1) kv old [OF ent [OF kv]] by (simp add: registryConsistent_def)
    show "markerId (decorationMarker (hostDecorations w' ! decoration (snd kv))) = fst kv"
      using assms(1) kv old [OF ent [OF kv]] by (simp add: registryConsistent_def)
  next
    fix g
    assume g: "g < length (hostDecorations w')"
      and a: "\<not> isDisposed (hostDecorations w' ! g) \<and> onDisposeDeletes (hostDecorations w' ! g)"
    have gl: "g < length (hostDecorations w)" using new [of g] g a by (cases "g < length (hostDecorations w)") auto
    show "\<exists>e. (markerId (decorationMarker (hostDecorations w' ! g)), e) \<in> set (decorations w)
        \<and> decoration e = g"
      using assms(1) gl a old [OF gl] by (simp add: registryConsistent_def)
  qed
qed

lemma clearPlaceholder_consistent:
  "registryConsistent w \<Longrightarrow> registryConsistent (clearPlaceholder w)"
proof -
  assume c: "registryConsistent w"
  let ?w1 = "case placeholderDecoration w of Some p \<Rightarrow> disposeDecoration p w | None \<Rightarrow> w"
  have "registryConsistent ?w1" using c by (simp add: disposeDecoration_consistent split: option.splits)
  moreover have "registryConsistent (clearPlaceholder w) = registryConsistent ?w1"
    by (rule registryConsistent_same) (simp_all add: clearPlaceholder_def Let_def)
  ultimately show ?thesis by simp
qed

lemma registerCommandDecoration_consistent:
  assumes "registryConsistent w"
  shows "registryConsistent (snd (registerCommandDecoration c b w))"
proof (cases "passes c b w")
  case False
  then show ?thesis using assms by (simp add: registerCommandDecoration_blocked)
next
  case p: True
  show ?thesis
  proof (cases "marker c")
    case None
    then show ?thesis using assms by (simp add: registerCommandDecoration_no_marker [OF p])
  next
    case (Some m)
    show ?thesis
    proof (rule registryConsistent_append [OF clearPlaceholder_consistent [OF assms]])
      show "hostDecorations (snd (registerCommandDecoration c b w)) =
          hostDecorations (clearPlaceholder w) @
            (if hostCreates w (registerCalls w) then [newDecoration c b m w] else [])"
        by (rule registerCommandDecoration_hostDecorations [OF p Some])
      show "\<forall>d \<in> set (if hostCreates w (registerCalls w) then [newDecoration c b m w] else []).
          \<not> onDisposeDeletes d"
        by (simp add: newDecoration_def)
      show "decorations (snd (registerCommandDecoration c b w)) = decorations (clearPlaceholder w)"
        by (rule registerCommandDecoration_decorations [OF p Some])
    qed
  qed
qed

lemma attachToCommandCapability_consistent:
  assumes "registryConsistent w"
  shows "registryConsistent (snd (attachToCommandCapability w))"
proof -
  have "registryConsistent w \<longrightarrow> registryConsistent (snd (attachToCommandCapability w))"
  proof (rule attachToCommandCapability_rel
      [where R = "\<lambda>a b. registryConsistent a \<longrightarrow> registryConsistent b"])
    show "registryConsistent a \<longrightarrow> registryConsistent a" for a by simp
    show "registryConsistent a \<longrightarrow> registryConsistent c"
      if "registryConsistent a \<longrightarrow> registryConsistent b" and "registryConsistent b \<longrightarrow> registryConsistent c"
      for a b c using that by simp
    show "registryConsistent a \<longrightarrow> registryConsistent (disposedFirst a)" for a
    proof -
      have "hostDecorations (disposedFirst a) = hostDecorations a"
        "decorations (disposedFirst a) = decorations a"
        by (simp_all add: disposedFirst_def disposeListeners_def split: option.splits)
      then show ?thesis by (simp add: registryConsistent_def)
    qed
    show "registryConsistent a \<longrightarrow> registryConsistent (a\<lparr>commandDetectionListeners := Some []\<rparr>)" for a
      by (simp add: registryConsistent_def)
    show "registryConsistent a \<longrightarrow> registryConsistent (snd (registerCommandDecoration c b a))" for a c b
      by (simp add: registerCommandDecoration_consistent)
    show "registryConsistent a \<longrightarrow> registryConsistent (subscribe e a)" for a e
      by (simp add: registryConsistent_def subscribe_def)
    show "registryConsistent a \<longrightarrow> registryConsistent (a\<lparr>addCapabilityListeners := n\<rparr>)" for a n
      by (simp add: registryConsistent_def)
    show "registryConsistent a \<longrightarrow> registryConsistent (a\<lparr>removeCapabilityListeners := n\<rparr>)" for a n
      by (simp add: registryConsistent_def)
  qed
  then show ?thesis using assms by simp
qed

lemma stripOverviewRuler_consistent:
  "registryConsistent (stripOverviewRuler h w) = registryConsistent w"
proof (rule registryConsistent_core)
  show "map core (hostDecorations (stripOverviewRuler h w)) = map core (hostDecorations w)"
    by (rule nth_equalityI) (simp_all add: stripOverviewRuler_nth core_def)
  show "decorations (stripOverviewRuler h w) = decorations w" by simp
qed

lemma stripAll_consistent:
  "registryConsistent (foldl (\<lambda>w' kv. stripOverviewRuler (decoration (snd kv)) w') w kvs)
     = registryConsistent w"
  by (induction kvs arbitrary: w) (simp_all add: stripOverviewRuler_consistent)

lemma updateDecorationVisibility_consistent:
  assumes "registryConsistent w"
  shows "registryConsistent (snd (updateDecorationVisibility w))"
proof (cases "ShellIntegrationDecorationsEnabled (config w)")
  case Never
  then show ?thesis
    using assms by (simp add: updateDecorationVisibility_def registryConsistent_def)
next
  case Both
  let ?w0 = "updateGutterDecorationVisibility True w"
  obtain r1 x where e: "attachToCommandCapability ?w0 = (r1, x)"
    by (cases "attachToCommandCapability ?w0")
  have "registryConsistent ?w0" using assms by (simp add: registryConsistent_def)
  then have c1: "registryConsistent x"
    using attachToCommandCapability_consistent [of ?w0] by (simp add: e)
  then have "registryConsistent (x\<lparr>overviewRulerDecorations := Some True, decorationsDisabled := Some False\<rparr>)"
    by (simp add: registryConsistent_def)
  then have "registryConsistent (snd (attachToCommandCapability
      (x\<lparr>overviewRulerDecorations := Some True, decorationsDisabled := Some False\<rparr>)))"
    by (rule attachToCommandCapability_consistent)
  then show ?thesis
    using c1 Both by (cases r1) (simp_all add: updateDecorationVisibility_def e)
next
  case Gutter
  let ?w1 = "updateGutterDecorationVisibility True w"
  let ?w2 = "case placeholderDecoration ?w1 of Some p \<Rightarrow> stripOverviewRuler p ?w1 | None \<Rightarrow> ?w1"
  let ?w3 = "foldl (\<lambda>w' kv. stripOverviewRuler (decoration (snd kv)) w') ?w2 (decorations ?w2)"
  let ?w4 = "?w3\<lparr>overviewRulerDecorations := Some False, decorationsDisabled := Some False\<rparr>"
  have "registryConsistent ?w1" using assms by (simp add: registryConsistent_def)
  then have "registryConsistent ?w2"
    by (simp add: stripOverviewRuler_consistent split: option.splits)
  then have "registryConsistent ?w3" by (simp only: stripAll_consistent)
  then have "registryConsistent ?w4"
    by (simp add: registryConsistent_def)
  then have "registryConsistent (snd (attachToCommandCapability ?w4))"
    by (rule attachToCommandCapability_consistent)
  then show ?thesis using Gutter by (simp add: updateDecorationVisibility_def Let_def)
next
  case OverviewRuler
  let ?w4 = "(updateGutterDecorationVisibility False w)
      \<lparr>overviewRulerDecorations := Some True, decorationsDisabled := Some False\<rparr>"
  have "registryConsistent ?w4" using assms by (simp add: registryConsistent_def)
  then have "registryConsistent (snd (attachToCommandCapability ?w4))"
    by (rule attachToCommandCapability_consistent)
  then show ?thesis using OverviewRuler by (simp add: updateDecorationVisibility_def)
next
  case Unrecognised
  then show ?thesis using assms by (simp add: updateDecorationVisibility_def)
qed

lemma constructed_consistent: "registryConsistent (constructed cfg capability)"
proof -
  have "registryConsistent (initialAddon cfg capability)"
    by (simp add: initialAddon_def registryConsistent_def)
  then show ?thesis
    unfolding constructed_def by (rule updateDecorationVisibility_consistent)
qed

lemma activate_consistent:
  assumes "registryConsistent w"
  shows "registryConsistent (snd (activate w))"
proof -
  have "registryConsistent (w\<lparr>terminal := True\<rparr>)" using assms by (simp add: registryConsistent_def)
  then show ?thesis unfolding activate_def by (rule attachToCommandCapability_consistent)
qed

lemma funpow_consistent:
  assumes "\<And>w. registryConsistent w \<Longrightarrow> registryConsistent (f w)" and "registryConsistent w"
  shows "registryConsistent ((f ^^ n) w)"
  by (induction n) (simp_all add: assms)


lemma fireCommandFinished_consistent:
  "registryConsistent w \<Longrightarrow> registryConsistent (fireCommandFinished c w)"
  unfolding fireCommandFinished_def onCommandFinished_def
  by (rule funpow_consistent) (simp_all add: registerCommandDecoration_consistent)



lemma render_length [simp]:
  "length (hostDecorations (render h fresh w)) = length (hostDecorations w)"
  by (simp add: render_def Let_def split: option.splits)


lemma render_decorations_unbound:
  assumes "onRender (hostDecorations w ! h) = None"
  shows "decorations (render h fresh w) = decorations w"
  using assms by (simp add: render_def Let_def)



lemma render_other:
  "g \<noteq> h \<Longrightarrow> hostDecorations (render h fresh w) ! g = hostDecorations w ! g"
  by (simp add: render_def Let_def split: option.splits)






section \<open>From \<open>Never\<close> back to \<open>Both\<close>\<close>








lemma disposedFirst_frame [simp]:
  "terminal (disposedFirst w) = terminal w"
  "decorations (disposedFirst w) = decorations w"
  "placeholderDecoration (disposedFirst w) = placeholderDecoration w"
  "overviewRulerDecorations (disposedFirst w) = overviewRulerDecorations w"
  "decorationsDisabled (disposedFirst w) = decorationsDisabled w"
  "config (disposedFirst w) = config w"
  "hostDecorations (disposedFirst w) = hostDecorations w"
  "registerCalls (disposedFirst w) = registerCalls w"
  "hostCreates (disposedFirst w) = hostCreates w"
  "successColor (disposedFirst w) = successColor w"
  "errorColor (disposedFirst w) = errorColor w"
  "defaultColor (disposedFirst w) = defaultColor w"
  by (simp_all add: disposedFirst_def disposeListeners_def split: option.splits)

lemma subscribe_frame [simp]:
  "terminal (subscribe e w) = terminal w"
  "decorations (subscribe e w) = decorations w"
  "placeholderDecoration (subscribe e w) = placeholderDecoration w"
  "overviewRulerDecorations (subscribe e w) = overviewRulerDecorations w"
  "decorationsDisabled (subscribe e w) = decorationsDisabled w"
  "config (subscribe e w) = config w"
  "capabilities (subscribe e w) = capabilities w"
  "hostDecorations (subscribe e w) = hostDecorations w"
  "registerCalls (subscribe e w) = registerCalls w"
  "hostCreates (subscribe e w) = hostCreates w"
  "successColor (subscribe e w) = successColor w"
  "errorColor (subscribe e w) = errorColor w"
  "defaultColor (subscribe e w) = defaultColor w"
  by (simp_all add: subscribe_def)

lemma clearPlaceholder_length_eq:
  "length (hostDecorations (clearPlaceholder w)) = length (hostDecorations w)"
  by simp



lemma executingStep_frame [simp]:
  "terminal (snd (executingStep capability w)) = terminal w"
  "commandDetectionListeners (snd (executingStep capability w)) = commandDetectionListeners w"
  "overviewRulerDecorations (snd (executingStep capability w)) = overviewRulerDecorations w"
  "decorationsDisabled (snd (executingStep capability w)) = decorationsDisabled w"
  "config (snd (executingStep capability w)) = config w"
  "capabilities (snd (executingStep capability w)) = capabilities w"
  "hostCreates (snd (executingStep capability w)) = hostCreates w"
  "subscriptions (snd (executingStep capability w)) = subscriptions w"
  "successColor (snd (executingStep capability w)) = successColor w"
  "errorColor (snd (executingStep capability w)) = errorColor w"
  "defaultColor (snd (executingStep capability w)) = defaultColor w"
  by (simp_all add: executingStep_def split: option.splits)







lemma attachToCommandCapability_colors [simp]:
  "successColor (snd (attachToCommandCapability w)) = successColor w"
  "errorColor (snd (attachToCommandCapability w)) = errorColor w"
  "defaultColor (snd (attachToCommandCapability w)) = defaultColor w"
proof -
  have g: "f (snd (attachToCommandCapability w)) = f w"
    if "\<And>w. f (disposedFirst w) = f w"
      and "\<And>w. f (w\<lparr>commandDetectionListeners := Some []\<rparr>) = f w"
      and "\<And>c b w. f (snd (registerCommandDecoration c b w)) = f w"
      and "\<And>e w. f (subscribe e w) = f w"
      and "\<And>n w. f (w\<lparr>addCapabilityListeners := n\<rparr>) = f w"
      and "\<And>n w. f (w\<lparr>removeCapabilityListeners := n\<rparr>) = f w"
    for f :: "addon \<Rightarrow> 'a"
    using attachToCommandCapability_rel [where R = "\<lambda>a b. f b = f a" and w = w] that by simp
  show "successColor (snd (attachToCommandCapability w)) = successColor w" by (rule g) simp_all
  show "errorColor (snd (attachToCommandCapability w)) = errorColor w" by (rule g) simp_all
  show "defaultColor (snd (attachToCommandCapability w)) = defaultColor w" by (rule g) simp_all
qed

lemma disposeEach_colors [simp]:
  "successColor (disposeEach ks w) = successColor w"
  "errorColor (disposeEach ks w) = errorColor w"
  "defaultColor (disposeEach ks w) = defaultColor w"
  by (rule disposeEach_preserves, simp)+

lemma disposedAll_colors [simp]:
  "successColor (disposedAll w) = successColor w"
  "errorColor (disposedAll w) = errorColor w"
  "defaultColor (disposedAll w) = defaultColor w"
  by (simp_all add: disposedAll_def Let_def split: option.splits)

lemma updateGutterDecorationVisibility_colors [simp]:
  "successColor (updateGutterDecorationVisibility b w) = successColor w"
  "errorColor (updateGutterDecorationVisibility b w) = errorColor w"
  "defaultColor (updateGutterDecorationVisibility b w) = defaultColor w"
  by (simp_all add: updateGutterDecorationVisibility_def)









lemma newDecoration_fields [simp]:
  "onRender (newDecoration c b m w) = Some c"
  "decorationMarker (newDecoration c b m w) = m"
  "isDisposed (newDecoration c b m w) = False"
  "onDisposeDeletes (newDecoration c b m w) = False"
  by (simp_all add: newDecoration_def)







lemma executingAddon_consistent: "registryConsistent executingAddon"
  unfolding executingAddon_def
  by (intro activate_consistent constructed_consistent)




end
